theory Spec2Isabelle
  imports Complex_Main "HOL-Library.AList" "HOL-Library.Char_ord"
    "HOL-Library.List_Lexorder" "HOL-Library.Product_Lexorder"
begin

section \<open>Schema trees (metrics/similarity.py)\<close>

text \<open>
  Python strings are modelled as \<^typ>\<open>string\<close>; their comparison is the lexicographic
  order on code points, which is the order of \<open>List_Lexorder\<close> over \<open>Char_ord\<close>.
  Exceptions are values of \<open>py_error\<close>, returned on the left of a sum.
\<close>

datatype py_error = KeyError | IndexError | ValueError | ZeroDivisionError
  | FileNotFoundError | JSONDecodeError

text \<open>
  \<open>class ShapeNode\<close>: a label and an ordered list of children. The trees handled by the
  evaluator are built fresh and never share nodes, so in-place mutation is modelled by
  returning the new tree.
\<close>

datatype ShapeNode = ShapeNode (label: string) (children: "ShapeNode list")

text \<open>\<open>ShapeNode.__len__\<close>: the number of children of the node.\<close>

definition len_ShapeNode :: "ShapeNode \<Rightarrow> nat" where
  "len_ShapeNode t = length (children t)"

text \<open>\<open>ShapeNode.add_kid\<close>: insert in front when \<open>before\<close>, append otherwise.\<close>

definition add_kid :: "ShapeNode \<Rightarrow> ShapeNode \<Rightarrow> bool \<Rightarrow> ShapeNode" where
  "add_kid self node before =
     (if before then ShapeNode (label self) (node # children self)
      else ShapeNode (label self) (children self @ [node]))"

text \<open>
  \<open>list.sort(key=key, reverse=reverse)\<close>: a stable sort by key; with \<open>reverse\<close> the
  order is descending and elements with equal keys still keep their original order.
\<close>

definition list_sort :: "('a \<Rightarrow> 'k::linorder) \<Rightarrow> bool \<Rightarrow> 'a list \<Rightarrow> 'a list" where
  "list_sort key reverse xs =
     (if reverse then rev (sort_key key (rev xs)) else sort_key key xs)"

lemma set_list_sort: "set (list_sort key reverse xs) = set xs"
  by (simp add: list_sort_def)

text \<open>
  \<open>ShapeNode.sort_children\<close>: sort this node's children, then sort the children of each
  child with the same key, recursively. The only caller passes a key.
\<close>

function sort_children :: "(ShapeNode \<Rightarrow> 'k::linorder) \<Rightarrow> bool \<Rightarrow> ShapeNode \<Rightarrow> ShapeNode" where
  "sort_children key reverse (ShapeNode l cs) =
     ShapeNode l (map (sort_children key reverse) (list_sort key reverse cs))"
  by pat_completeness auto
termination
proof (relation "measure (\<lambda>(key, reverse, t). size t)", goal_cases)
  case 1
  show ?case by simp
next
  case (2 key reverse l cs x)
  then have "x \<in> set cs" by (simp add: set_list_sort)
  then have "size x < Suc (size_list size cs)"
    by (induction cs) auto
  then show ?case by simp
qed

text \<open>
  The tree edit distance of the \<open>zss\<close> library (an external dependency):
  \<open>simple_distance\<close> runs the Zhang-Shasha algorithm with the costs
  \<open>insert = strdist('', label)\<close>, \<open>remove = strdist(label, '')\<close> and
  \<open>update = strdist(label_a, label_b)\<close>, where \<open>strdist\<close> is 0 on equal strings and 1
  otherwise (the function \<open>zss\<close> defines when the optional package \<open>editdist\<close> is absent). The algorithm computes the forest distance on prefixes of the post-order
  traversal; \<open>forestdist\<close> is that recurrence, which removes the rightmost root of either
  forest or matches the two rightmost trees.
\<close>

definition strdist :: "string \<Rightarrow> string \<Rightarrow> nat" where
  "strdist a b = (if a = b then 0 else 1)"

fun nodes :: "ShapeNode \<Rightarrow> nat" where
  "nodes (ShapeNode l cs) = Suc (sum_list (map nodes cs))"

definition forest_nodes :: "ShapeNode list \<Rightarrow> nat" where
  "forest_nodes F = sum_list (map nodes F)"

definition drop_root :: "ShapeNode list \<Rightarrow> ShapeNode list" where
  "drop_root F = butlast F @ children (last F)"

lemma forest_nodes_drop_root:
  "F \<noteq> [] \<Longrightarrow> forest_nodes F = Suc (forest_nodes (drop_root F))"
proof -
  assume "F \<noteq> []"
  then obtain G t where F: "F = G @ [t]"
    by (metis append_butlast_last_id)
  obtain l cs where t: "t = ShapeNode l cs"
    by (cases t) auto
  show ?thesis
    by (simp add: F t forest_nodes_def drop_root_def)
qed

lemma forest_nodes_butlast:
  "F \<noteq> [] \<Longrightarrow> forest_nodes (butlast F) < forest_nodes F"
proof -
  assume "F \<noteq> []"
  then obtain G t where F: "F = G @ [t]"
    by (metis append_butlast_last_id)
  obtain l cs where t: "t = ShapeNode l cs"
    by (cases t) auto
  show ?thesis
    by (simp add: F t forest_nodes_def)
qed

lemma forest_nodes_children_last:
  "F \<noteq> [] \<Longrightarrow> forest_nodes (children (last F)) < forest_nodes F"
proof -
  assume "F \<noteq> []"
  then obtain G t where F: "F = G @ [t]"
    by (metis append_butlast_last_id)
  obtain l cs where t: "t = ShapeNode l cs"
    by (cases t) auto
  show ?thesis
    by (simp add: F t forest_nodes_def)
qed

function forestdist :: "ShapeNode list \<Rightarrow> ShapeNode list \<Rightarrow> nat" where
  "forestdist F G =
     (if F = [] \<and> G = [] then 0
      else if G = [] then forestdist (drop_root F) [] + strdist (label (last F)) ''''
      else if F = [] then forestdist [] (drop_root G) + strdist '''' (label (last G))
      else min (forestdist (drop_root F) G + strdist (label (last F)) '''')
            (min (forestdist F (drop_root G) + strdist '''' (label (last G)))
                 (forestdist (butlast F) (butlast G)
                  + forestdist (children (last F)) (children (last G))
                  + strdist (label (last F)) (label (last G)))))"
  by pat_completeness auto
termination
proof (relation "measure (\<lambda>(F, G). forest_nodes F + forest_nodes G)", goal_cases)
  case 1
  show ?case by simp
next
  case (2 F G)
  then show ?case by (simp add: forest_nodes_drop_root)
next
  case (3 F G)
  then show ?case by (simp add: forest_nodes_drop_root)
next
  case (4 F G)
  then show ?case by (simp add: forest_nodes_drop_root)
next
  case (5 F G)
  then show ?case by (simp add: forest_nodes_drop_root)
next
  case (6 F G)
  then show ?case
    using forest_nodes_butlast [of F] forest_nodes_butlast [of G] by simp
next
  case (7 F G)
  then show ?case
    using forest_nodes_children_last [of F] forest_nodes_children_last [of G] by simp
qed

declare forestdist.simps [simp del]

definition simple_distance :: "ShapeNode \<Rightarrow> ShapeNode \<Rightarrow> nat" where
  "simple_distance A B = forestdist [A] [B]"

text \<open>
  \<open>compute_tree_edit_distance\<close>: both trees are sorted with a key that looks the label up
  among the labels of the children of the other tree's root, then the distance is taken.
  The lambda reads \<open>tree_2.children\<close> and \<open>tree_1.children\<close> of the two roots at every
  level of the recursion; the second sort sees the first tree already sorted.
\<close>

definition sort_key_against :: "ShapeNode \<Rightarrow> ShapeNode \<Rightarrow> bool \<times> string" where
  "sort_key_against other node = (label node \<notin> set (map label (children other)), label node)"

definition canonical_pair :: "ShapeNode \<Rightarrow> ShapeNode \<Rightarrow> ShapeNode \<times> ShapeNode" where
  "canonical_pair tree_1 tree_2 =
     (let tree_1' = sort_children (sort_key_against tree_2) False tree_1;
          tree_2' = sort_children (sort_key_against tree_1') False tree_2
      in (tree_1', tree_2'))"

definition compute_tree_edit_distance :: "ShapeNode \<Rightarrow> ShapeNode \<Rightarrow> nat" where
  "compute_tree_edit_distance tree_1 tree_2 =
     (case canonical_pair tree_1 tree_2 of (tree_1', tree_2') \<Rightarrow> simple_distance tree_1' tree_2')"

text \<open>
  The order the canonical sibling ordering establishes: the children of every node of the
  tree, at every level, are in ascending order of the key.
\<close>

fun sorted_at_every_level :: "(ShapeNode \<Rightarrow> 'k::linorder) \<Rightarrow> ShapeNode \<Rightarrow> bool" where
  "sorted_at_every_level key (ShapeNode l cs) =
     (sorted (map key cs) \<and> (\<forall>c \<in> set cs. sorted_at_every_level key c))"

text \<open>
  The pairing of one subtree with the corresponding subtree of the other tree, in the
  words of the specification: the labels \<open>own\<close> of a node's children are ordered so that
  those that appear among the labels \<open>other\<close> of the corresponding node's children come
  first, ties broken by label.
\<close>

definition paired_first :: "string list \<Rightarrow> string list \<Rightarrow> bool" where
  "paired_first own other = sorted (map (\<lambda>l. (l \<notin> set other, l)) own)"

section \<open>Schemas, the tree builder and the graph builder\<close>

text \<open>
  A ShExJ schema as the builders read it: the optional key \<open>start\<close>, the list \<open>shapes\<close>;
  a shape has an \<open>id\<close> and an optional \<open>expression\<close>, which has an optional list
  \<open>expressions\<close>. The elements of that list are kept abstract (\<open>'tc\<close>): the builders
  only pass them to the three label functions of \<open>shapespresso.metrics.utils\<close>, which
  are taken as parameters. The predicate label may be \<open>None\<close> or empty, which the tree
  builder tests with \<open>not predicate_node\<close>.
\<close>

record 'tc expression_obj =
  expressions :: "'tc list option"

record 'tc shape_obj =
  id_field :: string
  expression :: "'tc expression_obj option"

record 'tc schema_obj =
  start :: "string option"
  shapes :: "'tc shape_obj list"

record 'tc label_fns =
  get_predicate_node_label :: "'tc \<Rightarrow> string option"
  get_node_constraint_node_label :: "'tc \<Rightarrow> (string \<rightharpoonup> 'tc shape_obj) \<Rightarrow> string \<Rightarrow> string"
  get_cardinality_node_label :: "'tc \<Rightarrow> string"

text \<open>
  Modelled from the spec: \<open>get_shapes_dict\<close> of \<open>shapespresso.metrics.utils\<close>, the
  mapping from shape identifier to shape definition built from the sequence \<open>shapes\<close>,
  each shape keyed by its \<open>id\<close>; a later shape with the same id replaces an earlier one,
  as in a dictionary.
\<close>

definition get_shapes_dict :: "'tc schema_obj \<Rightarrow> (string \<rightharpoonup> 'tc shape_obj)" where
  "get_shapes_dict schema = map_of (rev (map (\<lambda>s. (id_field s, s)) (shapes schema)))"

text \<open>Python's truth value of a label: \<open>None\<close> and the empty string are false.\<close>

definition truthy :: "string option \<Rightarrow> bool" where
  "truthy v = (case v of None \<Rightarrow> False | Some s \<Rightarrow> s \<noteq> [])"

text \<open>
  \<open>transform_schema_to_tree\<close>, the lookup of the start shape: the requested id, or on
  \<open>KeyError\<close> the id of \<open>schema["shapes"][0]\<close>, which raises \<open>IndexError\<close> on an empty
  list.
\<close>

definition resolve_start_shape ::
  "'tc schema_obj \<Rightarrow> string \<Rightarrow> py_error + (string \<times> 'tc shape_obj)" where
  "resolve_start_shape schema shape_id =
     (let shapes_dict = get_shapes_dict schema in
      case shapes_dict shape_id of
        Some start_shape \<Rightarrow> Inr (shape_id, start_shape)
      | None \<Rightarrow>
          (case shapes schema of
             [] \<Rightarrow> Inl IndexError
           | s0 # _ \<Rightarrow>
               (case shapes_dict (id_field s0) of
                  None \<Rightarrow> Inl KeyError
                | Some start_shape \<Rightarrow> Inr (id_field s0, start_shape))))"

text \<open>The body of the loop over the triple constraints of the start shape.\<close>

definition tree_add_constraint ::
  "'tc label_fns \<Rightarrow> (string \<rightharpoonup> 'tc shape_obj) \<Rightarrow> string \<Rightarrow> ShapeNode \<Rightarrow> 'tc \<Rightarrow> ShapeNode" where
  "tree_add_constraint L shapes_dict shape_id start_node triple_constraint =
     (case get_predicate_node_label L triple_constraint of
        None \<Rightarrow> start_node
      | Some predicate_node \<Rightarrow>
          if predicate_node = [] then start_node
          else
            (let node_constraint_node =
                   get_node_constraint_node_label L triple_constraint shapes_dict shape_id;
                 cardinality_node = get_cardinality_node_label L triple_constraint;
                 constraint_node =
                   add_kid (ShapeNode predicate_node [])
                     (add_kid (ShapeNode node_constraint_node [])
                        (ShapeNode cardinality_node []) False) False
             in add_kid start_node constraint_node False))"

definition transform_schema_to_tree ::
  "'tc label_fns \<Rightarrow> 'tc schema_obj \<Rightarrow> string \<Rightarrow> py_error + ShapeNode" where
  "transform_schema_to_tree L schema shape_id =
     (case resolve_start_shape schema shape_id of
        Inl e \<Rightarrow> Inl e
      | Inr (shape_id', start_shape) \<Rightarrow>
          (let start_node = ShapeNode shape_id' [] in
           case expression start_shape of
             None \<Rightarrow> Inr start_node
           | Some e \<Rightarrow>
               (case expressions e of
                  None \<Rightarrow> Inr start_node
                | Some tcs \<Rightarrow>
                    Inr (foldl (tree_add_constraint L (get_shapes_dict schema) shape_id')
                           start_node tcs))))"

text \<open>The triple constraints a shape holds: none without an expression or a sequence.\<close>

definition triple_constraints :: "'tc shape_obj \<Rightarrow> 'tc list" where
  "triple_constraints shape =
     (case expression shape of
        None \<Rightarrow> []
      | Some e \<Rightarrow> (case expressions e of None \<Rightarrow> [] | Some tcs \<Rightarrow> tcs))"

text \<open>
  \<open>networkx.DiGraph\<close>, as far as the graph builder uses it: the nodes are a dictionary
  from node key to the attribute \<open>label\<close>, the edges a dictionary from a pair of keys to
  the attribute \<open>label\<close>; adding a key that is present updates its attribute and adds
  nothing. \<open>add_node(None)\<close> raises \<open>ValueError\<close>. Every edge is added between two
  nodes that \<open>add_node\<close> has just added.
\<close>

record DiGraph =
  g_nodes :: "(string \<times> string) list"
  g_edges :: "((string \<times> string) \<times> string) list"

definition empty_DiGraph :: DiGraph where
  "empty_DiGraph = \<lparr>g_nodes = [], g_edges = []\<rparr>"

definition add_node :: "string \<Rightarrow> string \<Rightarrow> DiGraph \<Rightarrow> DiGraph" where
  "add_node n lab g = g\<lparr>g_nodes := AList.update n lab (g_nodes g)\<rparr>"

definition add_edge :: "string \<Rightarrow> string \<Rightarrow> string \<Rightarrow> DiGraph \<Rightarrow> DiGraph" where
  "add_edge u v lab g = g\<lparr>g_edges := AList.update (u, v) lab (g_edges g)\<rparr>"

definition number_of_nodes :: "DiGraph \<Rightarrow> nat" where
  "number_of_nodes g = length (g_nodes g)"

definition graph_add_constraint ::
  "'tc label_fns \<Rightarrow> (string \<rightharpoonup> 'tc shape_obj) \<Rightarrow> string \<Rightarrow> DiGraph \<Rightarrow> 'tc \<Rightarrow> py_error + DiGraph" where
  "graph_add_constraint L shapes_dict start_shape_id g triple_constraint =
     (case get_predicate_node_label L triple_constraint of
        None \<Rightarrow> Inl ValueError
      | Some predicate_node \<Rightarrow>
          (let g1 = add_node predicate_node predicate_node g;
               g2 = add_edge start_shape_id predicate_node
                      (start_shape_id @ '' '' @ predicate_node) g1;
               node_constraint_node =
                 get_node_constraint_node_label L triple_constraint shapes_dict start_shape_id;
               g3 = add_node node_constraint_node node_constraint_node g2;
               g4 = add_edge predicate_node node_constraint_node
                      (predicate_node @ '' '' @ node_constraint_node) g3;
               cardinality_node = get_cardinality_node_label L triple_constraint;
               g5 = add_node cardinality_node cardinality_node g4;
               g6 = add_edge node_constraint_node cardinality_node
                      (node_constraint_node @ '' '' @ cardinality_node) g5
           in Inr g6))"

fun graph_add_constraints ::
  "'tc label_fns \<Rightarrow> (string \<rightharpoonup> 'tc shape_obj) \<Rightarrow> string \<Rightarrow> DiGraph \<Rightarrow> 'tc list
     \<Rightarrow> py_error + DiGraph" where
  "graph_add_constraints L shapes_dict start_shape_id g [] = Inr g"
| "graph_add_constraints L shapes_dict start_shape_id g (tc # tcs) =
     (case graph_add_constraint L shapes_dict start_shape_id g tc of
        Inl e \<Rightarrow> Inl e
      | Inr g' \<Rightarrow> graph_add_constraints L shapes_dict start_shape_id g' tcs)"

definition transform_schema_to_graph ::
  "'tc label_fns \<Rightarrow> 'tc schema_obj \<Rightarrow> py_error + (string \<times> DiGraph)" where
  "transform_schema_to_graph L schema =
     (case start schema of
        None \<Rightarrow> Inl KeyError
      | Some start_shape_id \<Rightarrow>
          (let schema_graph = add_node start_shape_id start_shape_id empty_DiGraph;
               shapes_dict = get_shapes_dict schema
           in case shapes_dict start_shape_id of
                None \<Rightarrow> Inl KeyError
              | Some start_shape \<Rightarrow>
                  (case expression start_shape of
                     None \<Rightarrow> Inr (start_shape_id, schema_graph)
                   | Some e \<Rightarrow>
                       (case expressions e of
                          None \<Rightarrow> Inr (start_shape_id, schema_graph)
                        | Some tcs \<Rightarrow>
                            (case graph_add_constraints L shapes_dict start_shape_id
                                    schema_graph tcs of
                               Inl err \<Rightarrow> Inl err
                             | Inr g \<Rightarrow> Inr (start_shape_id, g))))))"

section \<open>Strings\<close>

text \<open>
  The string methods the parser uses. A character is a code point below 256;
  \<open>isspace\<close> lists the code points below 256 that \<open>str.isspace\<close> accepts, which are
  also the ones \<open>\s\<close> matches in a regular expression on \<open>str\<close>.
\<close>

definition isspace :: "char \<Rightarrow> bool" where
  "isspace c = (c \<in> set [CHR 0x09, CHR 0x0A, CHR 0x0B, CHR 0x0C, CHR 0x0D, CHR 0x1C,
     CHR 0x1D, CHR 0x1E, CHR 0x1F, CHR 0x20, CHR 0x85, CHR 0xA0])"

definition lstrip :: "string \<Rightarrow> string" where
  "lstrip s = dropWhile isspace s"

definition rstrip :: "string \<Rightarrow> string" where
  "rstrip s = rev (dropWhile isspace (rev s))"

definition strip :: "string \<Rightarrow> string" where
  "strip s = lstrip (rstrip s)"

text \<open>\<open>s.rstrip(chars)\<close>: drop the trailing characters that are among \<open>chars\<close>.\<close>

definition rstrip_chars :: "string \<Rightarrow> string \<Rightarrow> string" where
  "rstrip_chars s chars = rev (dropWhile (\<lambda>c. c \<in> set chars) (rev s))"

definition startswith :: "string \<Rightarrow> string \<Rightarrow> bool" where
  "startswith s p = (take (length p) s = p)"

text \<open>\<open>s.split(sep)\<close> for a one-character separator: never empty.\<close>

fun split_char :: "char \<Rightarrow> string \<Rightarrow> string list" where
  "split_char sep [] = [[]]"
| "split_char sep (c # cs) =
     (if c = sep then [] # split_char sep cs
      else (case split_char sep cs of
              [] \<Rightarrow> [[c]]
            | w # ws \<Rightarrow> (c # w) # ws))"

text \<open>\<open>sep.join(xs)\<close>.\<close>

fun join :: "string \<Rightarrow> string list \<Rightarrow> string" where
  "join sep [] = []"
| "join sep [x] = x"
| "join sep (x # y # ys) = x @ sep @ join sep (y # ys)"

text \<open>
  \<open>s.splitlines()\<close>: the line boundaries below code point 256 are LF, CR, CR LF, VT, FF,
  FS, GS, RS and NEL; no empty string follows a final boundary.
\<close>

definition is_linebreak :: "char \<Rightarrow> bool" where
  "is_linebreak c = (c \<in> set [CHR 0x0A, CHR 0x0B, CHR 0x0C, CHR 0x0D, CHR 0x1C, CHR 0x1D,
     CHR 0x1E, CHR 0x85])"

fun splitlines_from :: "string \<Rightarrow> string \<Rightarrow> string list" where
  "splitlines_from cur [] = (if cur = [] then [] else [rev cur])"
| "splitlines_from cur [c] =
     (if is_linebreak c then [rev cur] else [rev (c # cur)])"
| "splitlines_from cur (c # d # cs) =
     (if c = CHR 0x0D \<and> d = CHR 0x0A then rev cur # splitlines_from [] cs
      else if is_linebreak c then rev cur # splitlines_from [] (d # cs)
      else splitlines_from (c # cur) (d # cs))"

definition splitlines :: "string \<Rightarrow> string list" where
  "splitlines s = splitlines_from [] s"

section \<open>The parser (parser/parser.py)\<close>

text \<open>\<open>position_start_line\<close>: the index of the first line that starts with \<open>start\<close> or \<open><\<close>, or 0.\<close>

fun first_start_line :: "nat \<Rightarrow> string list \<Rightarrow> nat" where
  "first_start_line idx [] = 0"
| "first_start_line idx (line # rest) =
     (if startswith line ''start'' \<or> startswith line ''<'' then idx
      else first_start_line (Suc idx) rest)"

definition position_start_line :: "string \<Rightarrow> nat" where
  "position_start_line shexc_text = first_start_line 0 (split_char (CHR 0x0A) shexc_text)"

text \<open>
  The anchor of a comment is a line of text or the integer 0. \<open>locate_comment\<close> indexes the
  first line and searches it for \<open>#\<close>, which raise on an empty list and on a line without
  \<open>#\<close>.
\<close>

datatype location = IntLoc int | StrLoc string

definition next_nonempty_line :: "string list \<Rightarrow> location" where
  "next_nonempty_line shexc_text =
     (case find (\<lambda>line. line \<noteq> []) (drop 1 shexc_text) of
        Some line \<Rightarrow> StrLoc line
      | None \<Rightarrow> IntLoc 0)"

definition locate_comment :: "string list \<Rightarrow> string \<Rightarrow> py_error + location" where
  "locate_comment shexc_text case_name =
     (if case_name = ''general'' then Inr (next_nonempty_line shexc_text)
      else
        (case shexc_text of
           [] \<Rightarrow> Inl IndexError
         | line # _ \<Rightarrow>
             if CHR ''#'' \<notin> set line then Inl ValueError
             else if strip (takeWhile (\<lambda>c. c \<noteq> CHR ''#'') line) \<noteq> []
             then Inr (StrLoc (rstrip (takeWhile (\<lambda>c. c \<noteq> CHR ''#'') line)))
             else Inr (next_nonempty_line shexc_text)))"

text \<open>\<open>remove_lines\<close>: the lines are numbered from 1.\<close>

definition remove_lines :: "string \<Rightarrow> int list \<Rightarrow> string" where
  "remove_lines text removed_lines =
     (let lines = splitlines text;
          modified_lines =
            map snd (filter (\<lambda>(i, line). int i \<notin> set removed_lines)
                       (zip [1 ..< Suc (length lines)] lines))
      in join [CHR 0x0A] modified_lines)"

text \<open>
  \<open>base_uri_parser_helper\<close>: the first line that matches
  \<open>^[Bb][Aa][Ss][Ee]\s+<(.+)>$\<close>, and its group. A line holds no newline, so \<open>.+\<close>
  matches any non-empty text; \<open><\<close> is no space, so \<open>\s+\<close> takes the whole run of spaces.
\<close>

definition match_base :: "string \<Rightarrow> string option" where
  "match_base line =
     (case line of
        b # a # s # e # rest \<Rightarrow>
          if b \<in> set ''Bb'' \<and> a \<in> set ''Aa'' \<and> s \<in> set ''Ss'' \<and> e \<in> set ''Ee''
             \<and> takeWhile isspace rest \<noteq> []
          then (let uri = dropWhile isspace rest in
                if 3 \<le> length uri \<and> hd uri = CHR ''<'' \<and> last uri = CHR ''>''
                then Some (butlast (tl uri)) else None)
          else None
      | _ \<Rightarrow> None)"

fun first_base :: "string list \<Rightarrow> string option" where
  "first_base [] = None"
| "first_base (line # rest) =
     (case match_base line of Some uri \<Rightarrow> Some uri | None \<Rightarrow> first_base rest)"

definition base_uri_parser_helper :: "string \<Rightarrow> string option" where
  "base_uri_parser_helper shexc_text = first_base (split_char (CHR 0x0A) shexc_text)"

text \<open>
  \<open>namespaces_parser_helper\<close>: the namespace manager is represented by the list of
  (prefix, uri) pairs bound on a fresh graph, in order. \<open>extract_prefix_declarations\<close>
  of \<open>shapespresso.utils\<close> is a parameter.
\<close>

datatype namespaces_input = StrInput string | DictInput "(string \<times> string) list" | OtherInput

definition namespaces_parser_helper ::
  "(string \<Rightarrow> (string \<times> string) list) \<Rightarrow> namespaces_input \<Rightarrow> (string \<times> string) list" where
  "namespaces_parser_helper extract_prefix_declarations inputs =
     (case inputs of
        StrInput s \<Rightarrow> extract_prefix_declarations s
      | DictInput d \<Rightarrow> d
      | OtherInput \<Rightarrow> [])"

text \<open>A comment record: the dictionary with the keys \<open>comment\<close>, \<open>type\<close> and \<open>location\<close>.\<close>

record comment_obj =
  comment_field :: string
  type_field :: string
  location_field :: location

text \<open>
  \<open>comment_parser_helper\<close>: the loop over \<open>enumerate(shexc_lines)\<close>; the list handed to
  \<open>locate_comment\<close> is \<open>shexc_lines[idx:]\<close>, the current line and the lines after it.
\<close>

fun comment_loop :: "nat \<Rightarrow> nat \<Rightarrow> string list \<Rightarrow> py_error + comment_obj list" where
  "comment_loop start_line_num idx [] = Inr []"
| "comment_loop start_line_num idx (line # rest) =
     (let found =
            (if idx < start_line_num then
               (if startswith (strip line) ''#'' then
                  (case locate_comment (line # rest) ''general'' of
                     Inl e \<Rightarrow> Inl e
                   | Inr loc \<Rightarrow>
                       Inr [\<lparr>comment_field = line, type_field = ''general'',
                             location_field = loc\<rparr>])
                else Inr [])
             else
               (if startswith (strip line) ''#'' then
                  (case locate_comment (line # rest) ''constraint'' of
                     Inl e \<Rightarrow> Inl e
                   | Inr loc \<Rightarrow>
                       Inr [\<lparr>comment_field = line, type_field = ''constraint'',
                             location_field = loc\<rparr>])
                else if CHR ''#'' \<in> set line then
                  (case locate_comment (line # rest) ''constraint'' of
                     Inl e \<Rightarrow> Inl e
                   | Inr loc \<Rightarrow>
                       Inr [\<lparr>comment_field = dropWhile (\<lambda>c. c \<noteq> CHR ''#'') line,
                             type_field = ''constraint'', location_field = loc\<rparr>])
                else Inr []))
      in case found of
           Inl e \<Rightarrow> Inl e
         | Inr cs \<Rightarrow>
             (case comment_loop start_line_num (Suc idx) rest of
                Inl e \<Rightarrow> Inl e
              | Inr others \<Rightarrow> Inr (cs @ others)))"

definition comment_parser_helper :: "string \<Rightarrow> py_error + comment_obj list" where
  "comment_parser_helper shexc_text =
     comment_loop (position_start_line shexc_text) 0 (split_char (CHR 0x0A) shexc_text)"

text \<open>
  The collaborators of the converter: the grammar engine \<open>ShExEvaluator\<close>, which yields
  the schema (\<open>None\<close> when \<open>_schema\<close> is false) and the list of errors, each with its
  line; the serializer \<open>as_json\<close>; and \<open>extract_prefix_declarations\<close>.
\<close>

record parse_error =
  message_field :: string
  line_field :: int

record 's parser_env =
  ShExEvaluator :: "string \<Rightarrow> 's option \<times> parse_error list"
  as_json :: "'s \<Rightarrow> string"
  extract_prefix_declarations :: "string \<Rightarrow> (string \<times> string) list"

type_synonym shexj_result =
  "string \<times> string option \<times> (string \<times> string) list option \<times> comment_obj list option"

text \<open>The last lines of \<open>shexc_to_shexj\<close>: base, namespaces and comments of a text.\<close>

definition load_metadata :: "'s parser_env \<Rightarrow> string \<Rightarrow> string \<Rightarrow> py_error + shexj_result" where
  "load_metadata P shexj_text shexc_text =
     (let base = base_uri_parser_helper shexc_text;
          namespaces =
            namespaces_parser_helper (extract_prefix_declarations P) (StrInput shexc_text)
      in case comment_parser_helper shexc_text of
           Inl e \<Rightarrow> Inl e
         | Inr comments \<Rightarrow> Inr (shexj_text, base, Some namespaces, Some comments))"

text \<open>
  \<open>shexc_to_shexj\<close>: the result is paired with the texts handed to the grammar engine,
  in the order of the calls. After a first failure with errors the variable
  \<open>shexc_text\<close> is rebound to the text without the offending lines. The order of
  \<open>list(set(...))\<close> is immaterial, \<open>remove_lines\<close> only tests membership.
\<close>

definition unable_to_parse :: "py_error + shexj_result" where
  "unable_to_parse = Inr ('''', None, None, None)"

definition shexc_to_shexj :: "'s parser_env \<Rightarrow> string \<Rightarrow> string list \<times> (py_error + shexj_result)" where
  "shexc_to_shexj P shexc_text =
     (case ShExEvaluator P shexc_text of
        (schema, errors) \<Rightarrow>
          if schema = None \<and> errors \<noteq> [] then
            (let error_lines = remdups (map line_field errors);
                 shexc_text' = remove_lines shexc_text error_lines
             in ([shexc_text, shexc_text'],
                 case fst (ShExEvaluator P shexc_text') of
                   Some schema' \<Rightarrow> load_metadata P (as_json P schema') shexc_text'
                 | None \<Rightarrow> unable_to_parse))
          else
            ([shexc_text],
             case schema of
               Some schema' \<Rightarrow> load_metadata P (as_json P schema') shexc_text
             | None \<Rightarrow> unable_to_parse))"

text \<open>
  \<open>insert_comments\<close>: the inner loop scans the lines for the first one that equals the
  anchor, as it is or without trailing spaces and semicolons, changes the list there and
  breaks.
\<close>

definition anchor_matches :: "string \<Rightarrow> location \<Rightarrow> bool" where
  "anchor_matches line loc = (StrLoc line = loc \<or> StrLoc (rstrip_chars line '' ;'') = loc)"

fun insert_at_anchor :: "comment_obj \<Rightarrow> string list \<Rightarrow> string list" where
  "insert_at_anchor comment [] = []"
| "insert_at_anchor comment (line # rest) =
     (if anchor_matches line (location_field comment) then
        (if type_field comment = ''general'' then comment_field comment # line # rest
         else (rstrip line @ ''  '' @ lstrip (comment_field comment)) # rest)
      else line # insert_at_anchor comment rest)"

definition insert_comment :: "comment_obj \<Rightarrow> string list \<Rightarrow> string list" where
  "insert_comment comment shexc_lines =
     (if location_field comment = IntLoc 0 then comment_field comment # shexc_lines
      else insert_at_anchor comment shexc_lines)"

definition insert_comments :: "string \<Rightarrow> comment_obj list option \<Rightarrow> string" where
  "insert_comments shexc_text comments =
     (case comments of
        None \<Rightarrow> shexc_text
      | Some cs \<Rightarrow>
          if cs = [] then shexc_text
          else join [CHR 0x0A]
                 (fold insert_comment (rev cs) (split_char (CHR 0x0A) shexc_text)))"

section \<open>The evaluator (metrics/similarity.py)\<close>

text \<open>
  The distance \<open>zss\<close> returns is an entry of a \<open>numpy\<close> array of floats (\<open>numpy\<close> comes
  with \<open>matplotlib\<close>, which the module imports). Floats are modelled by rationals;
  dividing a \<open>numpy\<close> float by the integer 0 gives \<open>inf\<close> or \<open>nan\<close> and a warning, not
  an exception, which \<open>NonFinite\<close> stands for.
\<close>

datatype pyfloat = Finite rat | NonFinite

text \<open>\<open>ted / (3 * len(true_schema_tree))\<close>.\<close>

definition normalized_ted :: "nat \<Rightarrow> ShapeNode \<Rightarrow> pyfloat" where
  "normalized_ted ted true_schema_tree =
     (if 3 * len_ShapeNode true_schema_tree = 0 then NonFinite
      else Finite (of_nat ted / of_nat (3 * len_ShapeNode true_schema_tree)))"

text \<open>\<open>s.split()\<close>: the maximal runs of characters that are not spaces.\<close>

fun split_whitespace_from :: "string \<Rightarrow> string \<Rightarrow> string list" where
  "split_whitespace_from cur [] = (if cur = [] then [] else [rev cur])"
| "split_whitespace_from cur (c # cs) =
     (if isspace c then
        (if cur = [] then split_whitespace_from [] cs
         else rev cur # split_whitespace_from [] cs)
      else split_whitespace_from (c # cur) cs)"

definition split_whitespace :: "string \<Rightarrow> string list" where
  "split_whitespace s = split_whitespace_from [] s"

text \<open>\<open>os.path.join\<close> of a directory and a file name that does not start with a slash.\<close>

definition path_join :: "string \<Rightarrow> string \<Rightarrow> string" where
  "path_join dir name =
     (if dir = [] then name
      else if last dir = CHR ''/'' then dir @ name
      else dir @ ''/'' @ name)"

text \<open>
  What the evaluator reads from outside: the converter's collaborators, \<open>json.loads\<close>,
  the label functions, the case mapping \<open>str.capitalize\<close> and the files, a missing file
  being \<open>None\<close>.
\<close>

record ('s, 'tc) eval_env =
  parser :: "'s parser_env"
  json_loads :: "string \<Rightarrow> py_error + 'tc schema_obj"
  label_functions :: "'tc label_fns"
  capitalize :: "string \<Rightarrow> string"
  files :: "string \<rightharpoonup> string"

text \<open>Reading a schema file into a tree: convert, load the JSON, build the tree.\<close>

definition load_schema_tree :: "('s, 'tc) eval_env \<Rightarrow> string \<Rightarrow> string \<Rightarrow> py_error + ShapeNode" where
  "load_schema_tree E shexc_text shape_id =
     (case snd (shexc_to_shexj (parser E) shexc_text) of
        Inl e \<Rightarrow> Inl e
      | Inr (shexj_text, base, namespaces, comments) \<Rightarrow>
          (case json_loads E shexj_text of
             Inl e \<Rightarrow> Inl e
           | Inr shexj_json \<Rightarrow>
               transform_schema_to_tree (label_functions E) shexj_json shape_id))"

text \<open>
  The body of the loop of \<open>evaluate_ted\<close> for one class: \<open>None\<close> when the predicted
  file is missing and the class is skipped, otherwise the distance and the normalized
  distance that are appended to the two lists.
\<close>

definition evaluate_class ::
  "('s, 'tc) eval_env \<Rightarrow> string \<Rightarrow> string \<Rightarrow> string \<Rightarrow> string \<times> string
     \<Rightarrow> py_error + (rat \<times> pyfloat) option" where
  "evaluate_class E dataset ground_truth_dir predicted_dir class_pair =
     (case class_pair of
        (class_url, class_label) \<Rightarrow>
          (let class_id = last (split_char (CHR ''/'') class_url);
               shape_id =
                 (if dataset = ''wes''
                  then concat (map (capitalize E) (split_whitespace class_label))
                  else class_label);
               true_shex_path = path_join ground_truth_dir (class_id @ ''.shex'')
           in case files E true_shex_path of
                None \<Rightarrow> Inl FileNotFoundError
              | Some true_shexc_text \<Rightarrow>
                  (case load_schema_tree E true_shexc_text shape_id of
                     Inl e \<Rightarrow> Inl e
                   | Inr true_schema_tree \<Rightarrow>
                       (let pred_shex_path = path_join predicted_dir (class_id @ ''.shex'')
                        in case files E pred_shex_path of
                             None \<Rightarrow> Inr None
                           | Some pred_shexc_text \<Rightarrow>
                               (case load_schema_tree E pred_shexc_text shape_id of
                                  Inl e \<Rightarrow> Inl e
                                | Inr pred_schema_tree \<Rightarrow>
                                    (let ted = compute_tree_edit_distance true_schema_tree
                                                 pred_schema_tree;
                                         normalized = normalized_ted ted true_schema_tree
                                     in Inr (Some (of_nat ted, normalized))))))))"

fun evaluate_loop ::
  "('s, 'tc) eval_env \<Rightarrow> string \<Rightarrow> string \<Rightarrow> string \<Rightarrow> (string \<times> string) list
     \<Rightarrow> rat list \<times> pyfloat list \<Rightarrow> py_error + (rat list \<times> pyfloat list)" where
  "evaluate_loop E dataset ground_truth_dir predicted_dir [] acc = Inr acc"
| "evaluate_loop E dataset ground_truth_dir predicted_dir (c # cs) acc =
     (case evaluate_class E dataset ground_truth_dir predicted_dir c of
        Inl e \<Rightarrow> Inl e
      | Inr None \<Rightarrow> evaluate_loop E dataset ground_truth_dir predicted_dir cs acc
      | Inr (Some (ted, normalized)) \<Rightarrow>
          evaluate_loop E dataset ground_truth_dir predicted_dir cs
            (fst acc @ [ted], snd acc @ [normalized]))"

text \<open>
  The final aggregation: \<open>sum(teds) / len(teds)\<close> divides the integer 0 by the integer 0
  on empty lists and raises. The mean of the normalized distances is only logged; its
  list is as long as \<open>teds\<close>, so it raises no error of its own.
\<close>

definition average_ted :: "rat list \<Rightarrow> py_error + rat" where
  "average_ted teds =
     (if length teds = 0 then Inl ZeroDivisionError
      else Inr (sum_list teds / of_nat (length teds)))"

definition evaluate_ted ::
  "('s, 'tc) eval_env \<Rightarrow> string \<Rightarrow> string list \<Rightarrow> string list \<Rightarrow> string \<Rightarrow> string
     \<Rightarrow> py_error + rat" where
  "evaluate_ted E dataset class_urls class_labels ground_truth_dir predicted_dir =
     (case evaluate_loop E dataset ground_truth_dir predicted_dir
             (zip class_urls class_labels) ([], []) of
        Inl e \<Rightarrow> Inl e
      | Inr (teds, normalized_teds) \<Rightarrow> average_ted teds)"

section \<open>Auxiliary definitions and concrete inputs\<close>

text \<open>
  A concrete instance of the label functions, for evaluating the builders: a triple
  constraint is the triple of its three labels and the label functions are projections.
\<close>

type_synonym example_tc = "string option \<times> string \<times> string"

definition example_label_fns :: "example_tc label_fns" where
  "example_label_fns =
     \<lparr>get_predicate_node_label = (\<lambda>tc. fst tc),
      get_node_constraint_node_label = (\<lambda>tc shapes_dict shape_id. fst (snd tc)),
      get_cardinality_node_label = (\<lambda>tc. snd (snd tc))\<rparr>"

definition person_schema :: "example_tc list \<Rightarrow> example_tc schema_obj" where
  "person_schema tcs =
     \<lparr>start = Some ''Person'',
      shapes = [\<lparr>id_field = ''Person'',
                 expression = Some \<lparr>expressions = Some tcs\<rparr>\<rparr>]\<rparr>"

definition empty_schema :: "example_tc schema_obj" where
  "empty_schema = \<lparr>start = None, shapes = []\<rparr>"

text \<open>The three-node chain and the three labels a triple constraint contributes.\<close>

definition constraint_chain ::
  "'tc label_fns \<Rightarrow> (string \<rightharpoonup> 'tc shape_obj) \<Rightarrow> string \<Rightarrow> 'tc \<Rightarrow> ShapeNode" where
  "constraint_chain L shapes_dict shape_id tc =
     ShapeNode (the (get_predicate_node_label L tc))
       [ShapeNode (get_node_constraint_node_label L tc shapes_dict shape_id)
          [ShapeNode (get_cardinality_node_label L tc) []]]"

definition mixed_constraints :: "example_tc list" where
  "mixed_constraints = [(Some ''knows'', ''IRI'', ''*''), (None, ''IRI'', ''+''),
     (Some ''name'', ''LITERAL'', ''{1,1}'')]"

definition constraint_labels ::
  "'tc label_fns \<Rightarrow> (string \<rightharpoonup> 'tc shape_obj) \<Rightarrow> string \<Rightarrow> 'tc \<Rightarrow> string list" where
  "constraint_labels L shapes_dict shape_id tc =
     [the (get_predicate_node_label L tc),
      get_node_constraint_node_label L tc shapes_dict shape_id,
      get_cardinality_node_label L tc]"

text \<open>
  Start shapes with two triple constraints that share the predicate label and the
  node-constraint label: alone, followed by a constraint without a predicate label, and
  followed by two constraints whose predicate label is empty.
\<close>

definition repeated_constraints :: "example_tc list" where
  "repeated_constraints = [(Some ''knows'', ''IRI'', ''*''), (Some ''knows'', ''IRI'', ''+'')]"

definition repeated_and_unlabelled :: "example_tc list" where
  "repeated_and_unlabelled =
     [(Some ''knows'', ''IRI'', ''*''), (Some ''knows'', ''IRI'', ''+''), (None, ''IRI'', ''+'')]"

definition repeated_and_empty :: "example_tc list" where
  "repeated_and_empty =
     [(Some ''knows'', ''IRI'', ''*''), (Some ''knows'', ''IRI'', ''+''),
      (Some '''', ''a'', ''b''), (Some '''', ''c'', ''d'')]"

text \<open>
  Two trees on which the pairing of corresponding subtrees and the sort of the source
  differ: below \<open>knows\<close> the first tree has the leaves \<open>IRI\<close> and \<open>LITERAL\<close>, the second
  only \<open>LITERAL\<close>.
\<close>

definition paired_tree_1 :: ShapeNode where
  "paired_tree_1 =
     ShapeNode ''Person'' [ShapeNode ''knows'' [ShapeNode ''IRI'' [], ShapeNode ''LITERAL'' []]]"

definition paired_tree_2 :: ShapeNode where
  "paired_tree_2 = ShapeNode ''Person'' [ShapeNode ''knows'' [ShapeNode ''LITERAL'' []]]"

text \<open>Two trees whose root children are in different orders.\<close>

definition unordered_tree_1 :: ShapeNode where
  "unordered_tree_1 =
     ShapeNode ''Person''
       [ShapeNode ''name'' [ShapeNode ''LITERAL'' [ShapeNode ''*'' []]],
        ShapeNode ''age'' [ShapeNode ''LITERAL'' [ShapeNode ''?'' []]],
        ShapeNode ''knows'' [ShapeNode ''IRI'' [ShapeNode ''*'' []]]]"

definition unordered_tree_2 :: ShapeNode where
  "unordered_tree_2 =
     ShapeNode ''Person''
       [ShapeNode ''knows'' [ShapeNode ''IRI'' [ShapeNode ''+'' []]],
        ShapeNode ''email'' [ShapeNode ''LITERAL'' [ShapeNode ''*'' []]]]"

text \<open>
  A serialized schema and four comment records: one anchored at the start of the document,
  a general one, a constraint one whose anchor lost its trailing semicolon, and one whose
  anchor is no line of the text.
\<close>

definition serialized_lines :: "string list" where
  "serialized_lines = [''PREFIX ex: <http://ex/>'', ''<S> {'', ''  ex:p . ;'', ''}'']"

definition sample_comments :: "comment_obj list" where
  "sample_comments =
     [\<lparr>comment_field = ''# licence'', type_field = ''general'', location_field = IntLoc 0\<rparr>,
      \<lparr>comment_field = ''# the shape'', type_field = ''general'',
         location_field = StrLoc ''<S> {''\<rparr>,
      \<lparr>comment_field = '' # inline'', type_field = ''constraint'',
         location_field = StrLoc ''  ex:p .''\<rparr>,
      \<lparr>comment_field = ''# lost'', type_field = ''constraint'',
         location_field = StrLoc ''  ex:q .''\<rparr>]"

text \<open>
  A text whose second line the grammar engine rejects, and a stand-in for the engine that
  reports that line on this text and accepts every other text. The rejected line carries
  an inline comment.
\<close>

definition broken_text :: string where
  "broken_text = join [CHR 0x0A] [''<S> {'', ''  ex:p @@@ ; # broken'', ''}'']"

definition line_two_engine :: "unit parser_env" where
  "line_two_engine =
     \<lparr>ShExEvaluator =
        (\<lambda>text. if text = broken_text
                then (None, [\<lparr>message_field = ''syntax error'', line_field = 2\<rparr>,
                             \<lparr>message_field = ''unexpected token'', line_field = 2\<rparr>])
                else (Some (), [])),
      as_json = (\<lambda>schema. ''{}''),
      extract_prefix_declarations = (\<lambda>text. [])\<rparr>"

text \<open>A stand-in for an engine that rejects every text with an error on line 1.\<close>

definition rejecting_engine :: "unit parser_env" where
  "rejecting_engine =
     \<lparr>ShExEvaluator = (\<lambda>text. (None, [\<lparr>message_field = ''syntax error'', line_field = 1\<rparr>])),
      as_json = (\<lambda>schema. ''{}''),
      extract_prefix_declarations = (\<lambda>text. [])\<rparr>"

text \<open>The number of nodes of a tree, and of a forest, that carry a given label.\<close>

fun label_count :: "string \<Rightarrow> ShapeNode \<Rightarrow> nat" where
  "label_count l (ShapeNode a cs) = (if a = l then 1 else 0) + sum_list (map (label_count l) cs)"

definition forest_label_count :: "string \<Rightarrow> ShapeNode list \<Rightarrow> nat" where
  "forest_label_count l F = sum_list (map (label_count l) F)"

text \<open>The tree of a start shape with one triple constraint.\<close>

definition one_constraint_tree :: "string \<Rightarrow> string \<Rightarrow> string \<Rightarrow> string \<Rightarrow> ShapeNode" where
  "one_constraint_tree shape_id predicate_node node_constraint_node cardinality_node =
     ShapeNode shape_id
       [ShapeNode predicate_node [ShapeNode node_constraint_node [ShapeNode cardinality_node []]]]"

text \<open>The path of the predicted schema file of a class.\<close>

definition pred_shex_path :: "string \<Rightarrow> string \<Rightarrow> string" where
  "pred_shex_path predicted_dir class_url =
     path_join predicted_dir (last (split_char (CHR ''/'') class_url) @ ''.shex'')"

text \<open>
  An environment with the ground-truth files of two classes and the predicted file of the
  second one only. The grammar engine accepts every text and hands it on; the ground-truth
  text loads as the shape \<open>Person\<close> with the constraint \<open>knows IRI *\<close>, any other text
  as the same shape with the cardinality \<open>{1,1}\<close>.
\<close>

definition sample_eval_env :: "(string, example_tc) eval_env" where
  "sample_eval_env =
     \<lparr>parser =
        \<lparr>ShExEvaluator = (\<lambda>text. (Some text, [])),
         as_json = (\<lambda>schema. schema),
         extract_prefix_declarations = (\<lambda>text. [])\<rparr>,
      json_loads =
        (\<lambda>text. if text = ''<Person> { knows IRI * }''
                then Inr (person_schema [(Some ''knows'', ''IRI'', ''*'')])
                else Inr (person_schema [(Some ''knows'', ''IRI'', ''{1,1}'')])),
      label_functions = example_label_fns,
      capitalize = (\<lambda>word. word),
      files =
        [''truth/Q5.shex'' \<mapsto> ''<Person> { knows IRI * }'',
         ''truth/Q42.shex'' \<mapsto> ''<Person> { knows IRI * }'',
         ''predicted/Q42.shex'' \<mapsto> ''<Person> { knows IRI {1,1} }'']\<rparr>"

text \<open>
  A text whose second and third lines the grammar engine rejects, line 3 being reported
  twice, and a stand-in for the engine that reports them on this text and accepts every
  other text.
\<close>

definition twice_broken_text :: string where
  "twice_broken_text =
     join [CHR 0x0A] [''<S> {'', ''  ex:p @@@ ;'', ''  ex:q ### ;'', ''}'']"

definition two_lines_engine :: "unit parser_env" where
  "two_lines_engine =
     \<lparr>ShExEvaluator =
        (\<lambda>text. if text = twice_broken_text
                then (None, [\<lparr>message_field = ''unexpected token'', line_field = 3\<rparr>,
                             \<lparr>message_field = ''syntax error'', line_field = 2\<rparr>,
                             \<lparr>message_field = ''syntax error'', line_field = 3\<rparr>])
                else (Some (), [])),
      as_json = (\<lambda>schema. ''{}''),
      extract_prefix_declarations = (\<lambda>text. [])\<rparr>"

text \<open>
  The shape id and the path of the ground-truth file of a class, as the loop of
  \<open>evaluate_ted\<close> derives them.
\<close>

definition class_shape_id :: "('s, 'tc) eval_env \<Rightarrow> string \<Rightarrow> string \<Rightarrow> string" where
  "class_shape_id E dataset class_label =
     (if dataset = ''wes'' then concat (map (capitalize E) (split_whitespace class_label))
      else class_label)"

definition true_shex_path :: "string \<Rightarrow> string \<Rightarrow> string" where
  "true_shex_path ground_truth_dir class_url =
     path_join ground_truth_dir (last (split_char (CHR ''/'') class_url) @ ''.shex'')"

text \<open>The results of the classes that were compared, in order: the skipped ones left out.\<close>

definition compared :: "'a option list \<Rightarrow> 'a list" where
  "compared results = concat (map (\<lambda>r. case r of None \<Rightarrow> [] | Some x \<Rightarrow> [x]) results)"

text \<open>
  An environment for two classes with the same ground truth, the shape \<open>Person\<close> with the
  constraint \<open>knows IRI *\<close>: the prediction for \<open>Q5\<close> has the same constraint with the
  cardinality \<open>{1,1}\<close>, the prediction for \<open>Q42\<close> has no constraint at all.
\<close>

definition scenario_eval_env :: "(string, example_tc) eval_env" where
  "scenario_eval_env =
     \<lparr>parser =
        \<lparr>ShExEvaluator = (\<lambda>text. (Some text, [])),
         as_json = (\<lambda>schema. schema),
         extract_prefix_declarations = (\<lambda>text. [])\<rparr>,
      json_loads =
        (\<lambda>text. if text = ''<Person> { knows IRI * }''
                then Inr (person_schema [(Some ''knows'', ''IRI'', ''*'')])
                else if text = ''<Person> { knows IRI {1,1} }''
                then Inr (person_schema [(Some ''knows'', ''IRI'', ''{1,1}'')])
                else Inr (person_schema [])),
      label_functions = example_label_fns,
      capitalize = (\<lambda>word. word),
      files =
        [''truth/Q5.shex'' \<mapsto> ''<Person> { knows IRI * }'',
         ''predicted/Q5.shex'' \<mapsto> ''<Person> { knows IRI {1,1} }'',
         ''truth/Q42.shex'' \<mapsto> ''<Person> { knows IRI * }'',
         ''predicted/Q42.shex'' \<mapsto> ''<Person> {}'']\<rparr>"

section \<open>Properties of the tree edit distance\<close>

lemma strdist_sym: "strdist a b = strdist b a"
  by (simp add: strdist_def)

lemma forestdist_both_empty: "forestdist [] [] = 0"
  by (simp add: forestdist.simps [of "[]" "[]"])

lemma forestdist_right_empty:
  "F \<noteq> [] \<Longrightarrow> forestdist F [] = forestdist (drop_root F) [] + strdist (label (last F)) ''''"
  by (simp add: forestdist.simps [of F "[]"])

lemma forestdist_left_empty:
  "G \<noteq> [] \<Longrightarrow> forestdist [] G = forestdist [] (drop_root G) + strdist '''' (label (last G))"
  by (simp add: forestdist.simps [of "[]" G])

lemma forestdist_nonempty:
  "F \<noteq> [] \<Longrightarrow> G \<noteq> [] \<Longrightarrow>
   forestdist F G =
     min (forestdist (drop_root F) G + strdist (label (last F)) '''')
       (min (forestdist F (drop_root G) + strdist '''' (label (last G)))
          (forestdist (butlast F) (butlast G)
           + forestdist (children (last F)) (children (last G))
           + strdist (label (last F)) (label (last G))))"
  by (simp add: forestdist.simps [of F G])

lemma forestdist_sym: "forestdist F G = forestdist G F"
proof (induction F G rule: forestdist.induct)
  case (1 F G)
  show ?case
  proof (cases "F = []")
    case True
    note F = this
    show ?thesis
    proof (cases "G = []")
      case True
      with F show ?thesis by simp
    next
      case False
      then have "forestdist [] (drop_root G) = forestdist (drop_root G) []"
        using "1.IH"(2) F by simp
      then show ?thesis
        using False F
        by (simp add: forestdist_left_empty forestdist_right_empty strdist_sym)
    qed
  next
    case False
    note F = this
    show ?thesis
    proof (cases "G = []")
      case True
      then have "forestdist (drop_root F) [] = forestdist [] (drop_root F)"
        using "1.IH"(1) F by simp
      then show ?thesis
        using True F
        by (simp add: forestdist_left_empty forestdist_right_empty strdist_sym)
    next
      case False
      note G = this
      have a: "forestdist (drop_root F) G = forestdist G (drop_root F)"
        using "1.IH"(3) F G by simp
      have b: "forestdist F (drop_root G) = forestdist (drop_root G) F"
        using "1.IH"(4) F G by simp
      have c: "forestdist (butlast F) (butlast G) = forestdist (butlast G) (butlast F)"
        using "1.IH"(5) F G by simp
      have d: "forestdist (children (last F)) (children (last G))
          = forestdist (children (last G)) (children (last F))"
        using "1.IH"(6) F G by simp
      show ?thesis
        unfolding forestdist_nonempty [OF F G] forestdist_nonempty [OF G F] a b c d
          strdist_sym [of "label (last G)"] strdist_sym [of "''''" "label (last F)"]
        by (simp only: min.left_commute strdist_sym [of "''''" "label (last G)"])
    qed
  qed
qed

text \<open>
  C8. The tree edit distance is symmetric: for any two trees \<open>A\<close> and \<open>B\<close> (canonicalized
  or not), the distance from \<open>A\<close> to \<open>B\<close> equals the distance from \<open>B\<close> to \<open>A\<close>, because
  the insert, remove and update costs are symmetric.
\<close>

theorem simple_distance_symmetric: "simple_distance A B = simple_distance B A"
  unfolding simple_distance_def by (rule forestdist_sym)

section \<open>The tree builder\<close>

lemma tree_add_constraint_eq:
  "tree_add_constraint L d sid node tc =
     (if truthy (get_predicate_node_label L tc)
      then ShapeNode (label node) (children node @ [constraint_chain L d sid tc])
      else node)"
  by (simp add: tree_add_constraint_def truthy_def add_kid_def constraint_chain_def Let_def
      split: option.splits)

lemma foldl_tree_add_constraint:
  "foldl (tree_add_constraint L d sid) node tcs =
     ShapeNode (label node)
       (children node @
          map (constraint_chain L d sid)
            (filter (\<lambda>tc. truthy (get_predicate_node_label L tc)) tcs))"
proof (induction tcs arbitrary: node)
  case Nil
  show ?case by simp
next
  case (Cons tc tcs)
  have step: "foldl (tree_add_constraint L d sid) node (tc # tcs) =
      ShapeNode (label (tree_add_constraint L d sid node tc))
        (children (tree_add_constraint L d sid node tc) @
           map (constraint_chain L d sid)
             (filter (\<lambda>tc. truthy (get_predicate_node_label L tc)) tcs))"
    by (simp only: foldl_Cons Cons.IH)
  show ?case
    unfolding step by (simp add: tree_add_constraint_eq)
qed

lemma transform_schema_to_tree_eq:
  "resolve_start_shape schema shape_id = Inr (sid, shape) \<Longrightarrow>
   transform_schema_to_tree L schema shape_id =
     Inr (ShapeNode sid
            (map (constraint_chain L (get_shapes_dict schema) sid)
               (filter (\<lambda>tc. truthy (get_predicate_node_label L tc))
                  (triple_constraints shape))))"
  by (simp add: transform_schema_to_tree_def triple_constraints_def foldl_tree_add_constraint
      split: option.splits)

lemma transform_schema_to_tree_Inr:
  "transform_schema_to_tree L schema shape_id = Inr t \<Longrightarrow>
   \<exists>sid shape. resolve_start_shape schema shape_id = Inr (sid, shape)"
  by (auto simp: transform_schema_to_tree_def split: sum.splits)

text \<open>
  C9. Whenever the tree builder returns a tree, its root carries the id of the resolved
  start shape, every child of the root is a chain of exactly three nodes (predicate, node
  constraint, cardinality leaf), and the root has as many children as the start shape has
  triple constraints with a predicate label that is neither \<open>None\<close> nor empty.
\<close>

theorem tree_shape_invariant:
  assumes "transform_schema_to_tree L schema shape_id = Inr t"
  shows "\<exists>sid shape.
           resolve_start_shape schema shape_id = Inr (sid, shape) \<and>
           label t = sid \<and>
           (\<forall>c \<in> set (children t).
              \<exists>p n k. c = ShapeNode p [ShapeNode n [ShapeNode k []]]) \<and>
           length (children t) =
             length (filter (\<lambda>tc. truthy (get_predicate_node_label L tc))
                       (triple_constraints shape))"
proof -
  obtain sid shape where r: "resolve_start_shape schema shape_id = Inr (sid, shape)"
    using transform_schema_to_tree_Inr [OF assms] by blast
  have t: "t = ShapeNode sid
            (map (constraint_chain L (get_shapes_dict schema) sid)
               (filter (\<lambda>tc. truthy (get_predicate_node_label L tc))
                  (triple_constraints shape)))"
    using transform_schema_to_tree_eq [OF r, of L] assms by simp
  have "\<forall>c \<in> set (children t). \<exists>p n k. c = ShapeNode p [ShapeNode n [ShapeNode k []]]"
    unfolding t by (auto simp: constraint_chain_def)
  moreover have "length (children t) =
      length (filter (\<lambda>tc. truthy (get_predicate_node_label L tc)) (triple_constraints shape))"
    unfolding t by simp
  moreover have "label t = sid"
    unfolding t by simp
  ultimately show ?thesis
    using r by blast
qed

text \<open>
  The invariant on a start shape with three constraints, one of them without a predicate
  label.
\<close>

theorem tree_shape_invariant_witness:
  "transform_schema_to_tree example_label_fns (person_schema mixed_constraints) ''Person'' =
     Inr (ShapeNode ''Person''
            [ShapeNode ''knows'' [ShapeNode ''IRI'' [ShapeNode ''*'' []]],
             ShapeNode ''name'' [ShapeNode ''LITERAL'' [ShapeNode ''{1,1}'' []]]]) \<and>
   length (children (ShapeNode ''Person''
            [ShapeNode ''knows'' [ShapeNode ''IRI'' [ShapeNode ''*'' []]],
             ShapeNode ''name'' [ShapeNode ''LITERAL'' [ShapeNode ''{1,1}'' []]]])) =
     length (filter (\<lambda>tc. truthy (get_predicate_node_label example_label_fns tc)) mixed_constraints)"
proof -
  have e: "transform_schema_to_tree example_label_fns (person_schema mixed_constraints) ''Person'' =
     Inr (ShapeNode ''Person''
            [ShapeNode ''knows'' [ShapeNode ''IRI'' [ShapeNode ''*'' []]],
             ShapeNode ''name'' [ShapeNode ''LITERAL'' [ShapeNode ''{1,1}'' []]]])"
    by (simp add: transform_schema_to_tree_def resolve_start_shape_def get_shapes_dict_def
        person_schema_def mixed_constraints_def example_label_fns_def tree_add_constraint_def
        add_kid_def)
  have r: "resolve_start_shape (person_schema mixed_constraints) ''Person'' =
      Inr (''Person'', \<lparr>id_field = ''Person'',
                 expression = Some \<lparr>expressions = Some mixed_constraints\<rparr>\<rparr>)"
    by (simp add: resolve_start_shape_def get_shapes_dict_def person_schema_def)
  show ?thesis
    using tree_shape_invariant [OF e] e r
    by (simp add: triple_constraints_def)
qed

lemma get_shapes_dict_first:
  "shapes schema = s0 # rest \<Longrightarrow> \<exists>shape. get_shapes_dict schema (id_field s0) = Some shape"
proof -
  assume "shapes schema = s0 # rest"
  then have "id_field s0 \<in> fst ` set (rev (map (\<lambda>s. (id_field s, s)) (shapes schema)))"
    by (simp add: image_iff)
  then have "map_of (rev (map (\<lambda>s. (id_field s, s)) (shapes schema))) (id_field s0) \<noteq> None"
    by (simp only: map_of_eq_None_iff not_not)
  then show ?thesis
    by (simp add: get_shapes_dict_def)
qed

text \<open>
  C6, as amended. For every schema that declares at least one shape and every requested
  shape id that is absent from the shape mapping, the tree builder returns a tree, rooted
  at the id of the first declared shape, and it is the tree it returns when that first id
  is requested directly.
\<close>

theorem fallback_to_first_shape:
  assumes "get_shapes_dict schema shape_id = None"
    and "shapes schema = s0 # rest"
  shows "\<exists>t. transform_schema_to_tree L schema shape_id = Inr t \<and>
             label t = id_field s0 \<and>
             transform_schema_to_tree L schema (id_field s0) = Inr t"
proof -
  obtain shape where s: "get_shapes_dict schema (id_field s0) = Some shape"
    using get_shapes_dict_first [OF assms(2)] by blast
  have r1: "resolve_start_shape schema shape_id = Inr (id_field s0, shape)"
    by (simp add: resolve_start_shape_def assms s)
  have r2: "resolve_start_shape schema (id_field s0) = Inr (id_field s0, shape)"
    by (simp add: resolve_start_shape_def s)
  show ?thesis
    by (simp add: transform_schema_to_tree_eq [OF r1] transform_schema_to_tree_eq [OF r2])
qed

text \<open>The fallback on a schema whose only shape is \<open>Person\<close>, asked for \<open>Human\<close>.\<close>

theorem fallback_to_first_shape_witness:
  "get_shapes_dict (person_schema mixed_constraints) ''Human'' = None \<and>
   shapes (person_schema mixed_constraints) =
     [\<lparr>id_field = ''Person'', expression = Some \<lparr>expressions = Some mixed_constraints\<rparr>\<rparr>] \<and>
   transform_schema_to_tree example_label_fns (person_schema mixed_constraints) ''Human'' =
     Inr (ShapeNode ''Person''
            [ShapeNode ''knows'' [ShapeNode ''IRI'' [ShapeNode ''*'' []]],
             ShapeNode ''name'' [ShapeNode ''LITERAL'' [ShapeNode ''{1,1}'' []]]])"
proof -
  have a: "get_shapes_dict (person_schema mixed_constraints) ''Human'' = None"
    by (simp add: get_shapes_dict_def person_schema_def)
  have b: "shapes (person_schema mixed_constraints) =
     [\<lparr>id_field = ''Person'', expression = Some \<lparr>expressions = Some mixed_constraints\<rparr>\<rparr>]"
    by (simp add: person_schema_def)
  have c: "transform_schema_to_tree example_label_fns (person_schema mixed_constraints) ''Person'' =
     Inr (ShapeNode ''Person''
            [ShapeNode ''knows'' [ShapeNode ''IRI'' [ShapeNode ''*'' []]],
             ShapeNode ''name'' [ShapeNode ''LITERAL'' [ShapeNode ''{1,1}'' []]]])"
    by (simp add: transform_schema_to_tree_def resolve_start_shape_def get_shapes_dict_def
        person_schema_def mixed_constraints_def example_label_fns_def tree_add_constraint_def
        add_kid_def)
  show ?thesis
    using fallback_to_first_shape [OF a b, of example_label_fns] a b c by auto
qed

text \<open>
  A schema without shapes has no first shape: the requested id is absent and the fallback
  \<open>schema["shapes"][0]\<close> raises \<open>IndexError\<close>.
\<close>

theorem fallback_without_shapes_counterexample:
  "get_shapes_dict empty_schema ''Person'' = None \<and>
   transform_schema_to_tree example_label_fns empty_schema ''Person'' = Inl IndexError"
  by (simp add: transform_schema_to_tree_def resolve_start_shape_def get_shapes_dict_def
      empty_schema_def)

(* graph node count *)

section \<open>The graph builder\<close>

lemma keys_add_node:
  "fst ` set (g_nodes (add_node n lab g)) = insert n (fst ` set (g_nodes g))"
  by (simp add: add_node_def AList.dom_update)

lemma distinct_add_node:
  "distinct (map fst (g_nodes g)) \<Longrightarrow> distinct (map fst (g_nodes (add_node n lab g)))"
  by (simp add: add_node_def AList.distinct_update)

lemma g_nodes_add_edge [simp]: "g_nodes (add_edge u v lab g) = g_nodes g"
  by (simp add: add_edge_def)

lemma graph_add_constraint_keys:
  assumes "get_predicate_node_label L tc \<noteq> None"
  shows "\<exists>g'. graph_add_constraint L d sid g tc = Inr g' \<and>
           fst ` set (g_nodes g') = fst ` set (g_nodes g) \<union> set (constraint_labels L d sid tc) \<and>
           (distinct (map fst (g_nodes g)) \<longrightarrow> distinct (map fst (g_nodes g')))"
proof -
  obtain p where p: "get_predicate_node_label L tc = Some p"
    using assms by blast
  show ?thesis
    by (auto simp: graph_add_constraint_def p Let_def keys_add_node distinct_add_node
        constraint_labels_def)
qed

lemma graph_add_constraints_keys:
  assumes "\<forall>tc \<in> set tcs. get_predicate_node_label L tc \<noteq> None"
  shows "\<exists>g'. graph_add_constraints L d sid g tcs = Inr g' \<and>
           fst ` set (g_nodes g') =
             fst ` set (g_nodes g) \<union> set (concat (map (constraint_labels L d sid) tcs)) \<and>
           (distinct (map fst (g_nodes g)) \<longrightarrow> distinct (map fst (g_nodes g')))"
  using assms
proof (induction tcs arbitrary: g)
  case Nil
  show ?case by simp
next
  case (Cons tc tcs)
  then have "get_predicate_node_label L tc \<noteq> None"
    by simp
  from graph_add_constraint_keys [OF this, of d sid g]
  obtain g1 where g1: "graph_add_constraint L d sid g tc = Inr g1"
    and k1: "fst ` set (g_nodes g1) = fst ` set (g_nodes g) \<union> set (constraint_labels L d sid tc)"
    and d1: "distinct (map fst (g_nodes g)) \<longrightarrow> distinct (map fst (g_nodes g1))"
    by blast
  from Cons have "\<forall>tc \<in> set tcs. get_predicate_node_label L tc \<noteq> None"
    by simp
  from Cons.IH [OF this, of g1]
  obtain g' where g': "graph_add_constraints L d sid g1 tcs = Inr g'"
    and k': "fst ` set (g_nodes g') =
             fst ` set (g_nodes g1) \<union> set (concat (map (constraint_labels L d sid) tcs))"
    and d': "distinct (map fst (g_nodes g1)) \<longrightarrow> distinct (map fst (g_nodes g'))"
    by blast
  have "graph_add_constraints L d sid g (tc # tcs) = Inr g'"
    by (simp add: g1 g')
  moreover have "fst ` set (g_nodes g') =
      fst ` set (g_nodes g) \<union> set (concat (map (constraint_labels L d sid) (tc # tcs)))"
    unfolding k' k1 by auto
  moreover have "distinct (map fst (g_nodes g)) \<longrightarrow> distinct (map fst (g_nodes g'))"
    using d1 d' by blast
  ultimately show ?case by blast
qed

lemma concat_not_distinct:
  assumes "i < j" and "j < length xss" and "x \<in> set (xss ! i)" and "x \<in> set (xss ! j)"
  shows "\<not> distinct (concat xss)"
proof
  assume dist: "distinct (concat xss)"
  have split: "xss = take j xss @ (xss ! j) # drop (Suc j) xss"
    using assms(2) by (rule id_take_nth_drop)
  have "xss ! i = take j xss ! i"
    using assms(1) by simp
  moreover have "i < length (take j xss)"
    using assms(1,2) by simp
  ultimately have "xss ! i \<in> set (take j xss)"
    by (metis nth_mem)
  then have x1: "x \<in> set (concat (take j xss))"
    using assms(3) by auto
  have "distinct (concat (take j xss) @ (xss ! j) @ concat (drop (Suc j) xss))"
    using dist by (subst (asm) split) simp
  then have "set (concat (take j xss)) \<inter> set (xss ! j) = {}"
    by auto
  then show False
    using x1 assms(4) by blast
qed

lemma repeated_label_not_distinct:
  assumes "i < j" and "j < length tcs"
    and "get_predicate_node_label L (tcs ! i) = get_predicate_node_label L (tcs ! j)"
  shows "\<not> distinct (concat (map (constraint_labels L d sid) tcs))"
proof (rule concat_not_distinct [OF assms(1)])
  show "j < length (map (constraint_labels L d sid) tcs)"
    using assms(2) by simp
  show "the (get_predicate_node_label L (tcs ! i)) \<in> set (map (constraint_labels L d sid) tcs ! i)"
    using assms(1,2) by (simp add: constraint_labels_def)
  show "the (get_predicate_node_label L (tcs ! i)) \<in> set (map (constraint_labels L d sid) tcs ! j)"
    using assms(2,3) by (simp add: constraint_labels_def)
qed

lemma nodes_constraint_chain [simp]: "nodes (constraint_chain L d sid tc) = 3"
  by (simp add: constraint_chain_def)

lemma length_constraint_labels [simp]: "length (constraint_labels L d sid tc) = 3"
  by (simp add: constraint_labels_def)

lemma sum_list_const3: "sum_list (map (\<lambda>x. 3::nat) xs) = 3 * length xs"
  by (induction xs) simp_all

lemma length_concat_labels:
  "length (concat (map (constraint_labels L d sid) tcs)) = 3 * length tcs"
  by (induction tcs) simp_all

lemma truthy_not_None: "truthy v \<Longrightarrow> v \<noteq> None"
  by (cases v) (simp_all add: truthy_def)

text \<open>
  C7, as amended. For any schema whose start shape resolves, whose triple constraints all
  have a predicate label that is neither \<open>None\<close> nor empty, and two of which have
  identical predicate labels and identical node-constraint labels, both builders return
  and the graph has strictly fewer nodes than the tree built for the start shape.
\<close>

theorem graph_smaller_than_tree:
  assumes st: "start schema = Some sid"
    and sh: "get_shapes_dict schema sid = Some shape"
    and tr: "\<forall>tc \<in> set (triple_constraints shape). truthy (get_predicate_node_label L tc)"
    and ij: "i < j" "j < length (triple_constraints shape)"
    and pl: "get_predicate_node_label L (triple_constraints shape ! i) =
             get_predicate_node_label L (triple_constraints shape ! j)"
    and nl: "get_node_constraint_node_label L (triple_constraints shape ! i)
               (get_shapes_dict schema) sid =
             get_node_constraint_node_label L (triple_constraints shape ! j)
               (get_shapes_dict schema) sid"
  shows "\<exists>g t. transform_schema_to_graph L schema = Inr (sid, g) \<and>
               transform_schema_to_tree L schema sid = Inr t \<and>
               number_of_nodes g < nodes t"
proof -
  let ?tcs = "triple_constraints shape"
  let ?d = "get_shapes_dict schema"
  let ?labels = "concat (map (constraint_labels L ?d sid) ?tcs)"
  let ?g0 = "add_node sid sid empty_DiGraph"
  obtain e where e: "expression shape = Some e" and es: "expressions e = Some ?tcs"
    using ij(2) by (auto simp: triple_constraints_def split: option.splits)
  have nn: "\<forall>tc \<in> set ?tcs. get_predicate_node_label L tc \<noteq> None"
    using tr truthy_not_None by blast
  obtain g where g: "graph_add_constraints L ?d sid ?g0 ?tcs = Inr g"
    and keys: "fst ` set (g_nodes g) = fst ` set (g_nodes ?g0) \<union> set ?labels"
    and dist: "distinct (map fst (g_nodes ?g0)) \<longrightarrow> distinct (map fst (g_nodes g))"
    using graph_add_constraints_keys [OF nn, of ?d sid ?g0] by blast
  have g0: "g_nodes ?g0 = [(sid, sid)]"
    by (simp add: add_node_def empty_DiGraph_def)
  have graph: "transform_schema_to_graph L schema = Inr (sid, g)"
    by (simp add: transform_schema_to_graph_def st sh e es g)
  have "distinct (map fst (g_nodes g))"
    using dist g0 by simp
  then have "card (set (map fst (g_nodes g))) = length (map fst (g_nodes g))"
    by (rule distinct_card)
  then have "number_of_nodes g = card (set (map fst (g_nodes g)))"
    by (simp add: number_of_nodes_def)
  also have "set (map fst (g_nodes g)) = set (sid # ?labels)"
    using keys g0 by simp
  finally have count: "number_of_nodes g = card (set (sid # ?labels))" .
  have "\<not> distinct ?labels"
    using repeated_label_not_distinct [OF ij pl] .
  then have "\<not> distinct (sid # ?labels)"
    by simp
  then have "card (set (sid # ?labels)) \<noteq> length (sid # ?labels)"
    using card_distinct by blast
  then have "card (set (sid # ?labels)) < length (sid # ?labels)"
    using card_length [of "sid # ?labels"] by linarith
  then have less: "number_of_nodes g < Suc (3 * length ?tcs)"
    using count by (simp add: length_concat_labels)
  have res: "resolve_start_shape schema sid = Inr (sid, shape)"
    by (simp add: resolve_start_shape_def sh)
  have all: "filter (\<lambda>tc. truthy (get_predicate_node_label L tc)) ?tcs = ?tcs"
    using tr by simp
  let ?t = "ShapeNode sid (map (constraint_chain L ?d sid) ?tcs)"
  have tree: "transform_schema_to_tree L schema sid = Inr ?t"
    using transform_schema_to_tree_eq [OF res, of L] by (simp only: all)
  have "nodes ?t = Suc (3 * length ?tcs)"
    by (simp add: comp_def sum_list_const3)
  then show ?thesis
    using graph tree less by auto
qed

text \<open>The two constraints \<open>knows IRI *\<close> and \<open>knows IRI +\<close> of the shape \<open>Person\<close>.\<close>

theorem graph_smaller_than_tree_witness:
  "start (person_schema repeated_constraints) = Some ''Person'' \<and>
   (0::nat) < 1 \<and> 1 < length repeated_constraints \<and>
   fst (repeated_constraints ! 0) = fst (repeated_constraints ! 1) \<and>
   fst (snd (repeated_constraints ! 0)) = fst (snd (repeated_constraints ! 1)) \<and>
   (\<exists>g t. transform_schema_to_graph example_label_fns (person_schema repeated_constraints) =
             Inr (''Person'', g) \<and>
          transform_schema_to_tree example_label_fns (person_schema repeated_constraints)
             ''Person'' = Inr t \<and>
          number_of_nodes g < nodes t)"
proof -
  let ?shape = "\<lparr>id_field = ''Person'',
                 expression = Some \<lparr>expressions = Some repeated_constraints\<rparr>\<rparr>"
  have st: "start (person_schema repeated_constraints) = Some ''Person''"
    by (simp add: person_schema_def)
  have sh: "get_shapes_dict (person_schema repeated_constraints) ''Person'' = Some ?shape"
    by (simp add: get_shapes_dict_def person_schema_def)
  have tcs: "triple_constraints ?shape = repeated_constraints"
    by (simp add: triple_constraints_def)
  have tr: "\<forall>tc \<in> set (triple_constraints ?shape).
      truthy (get_predicate_node_label example_label_fns tc)"
    unfolding tcs by (simp add: repeated_constraints_def example_label_fns_def truthy_def)
  have j: "1 < length (triple_constraints ?shape)"
    unfolding tcs by (simp add: repeated_constraints_def)
  have pl: "get_predicate_node_label example_label_fns (triple_constraints ?shape ! 0) =
      get_predicate_node_label example_label_fns (triple_constraints ?shape ! 1)"
    unfolding tcs by (simp add: repeated_constraints_def example_label_fns_def)
  have nl: "get_node_constraint_node_label example_label_fns (triple_constraints ?shape ! 0)
        (get_shapes_dict (person_schema repeated_constraints)) ''Person'' =
      get_node_constraint_node_label example_label_fns (triple_constraints ?shape ! 1)
        (get_shapes_dict (person_schema repeated_constraints)) ''Person''"
    unfolding tcs by (simp add: repeated_constraints_def example_label_fns_def)
  have "\<exists>g t. transform_schema_to_graph example_label_fns (person_schema repeated_constraints) =
             Inr (''Person'', g) \<and>
          transform_schema_to_tree example_label_fns (person_schema repeated_constraints)
             ''Person'' = Inr t \<and>
          number_of_nodes g < nodes t"
    using graph_smaller_than_tree [OF st sh tr _ j pl nl] by simp
  then show ?thesis
    using st by (simp add: repeated_constraints_def)
qed

text \<open>
  With a further constraint that has no predicate label the graph builder hands \<open>None\<close>
  to \<open>add_node\<close> and raises, and with further constraints whose predicate label is empty
  the graph keeps them while the tree builder skips them: 10 graph nodes against 7 tree
  nodes.
\<close>

theorem graph_not_smaller_counterexample:
  "transform_schema_to_graph example_label_fns (person_schema repeated_and_unlabelled) =
     Inl ValueError \<and>
   map_sum id (\<lambda>r. number_of_nodes (snd r))
     (transform_schema_to_graph example_label_fns (person_schema repeated_and_empty)) = Inr 10 \<and>
   map_sum id nodes
     (transform_schema_to_tree example_label_fns (person_schema repeated_and_empty) ''Person'')
     = Inr 7"
  by (simp add: transform_schema_to_graph_def transform_schema_to_tree_def
      resolve_start_shape_def get_shapes_dict_def person_schema_def repeated_and_unlabelled_def
      repeated_and_empty_def example_label_fns_def tree_add_constraint_def add_kid_def
      graph_add_constraint_def add_node_def add_edge_def empty_DiGraph_def number_of_nodes_def
      Let_def)

section \<open>The canonical sibling ordering\<close>

lemma label_sort_children [simp]: "label (sort_children key reverse t) = label t"
  by (cases t) simp

lemma children_sort_children:
  "children (sort_children key reverse t) =
     map (sort_children key reverse) (list_sort key reverse (children t))"
  by (cases t) simp

lemma sort_key_against_sort_children [simp]:
  "sort_key_against other (sort_children key reverse t) = sort_key_against other t"
  by (simp add: sort_key_against_def)

lemma sort_key_against_cong:
  "set (map label (children a)) = set (map label (children b)) \<Longrightarrow>
   sort_key_against a = sort_key_against b"
  by (rule ext) (simp add: sort_key_against_def)

lemma labels_sort_children:
  "set (map label (children (sort_children key reverse t))) = set (map label (children t))"
proof -
  have "map label (map (sort_children key reverse) xs) = map label xs" for xs
    by (induction xs) simp_all
  then show ?thesis
    by (simp only: children_sort_children set_map set_list_sort)
qed

lemma sorted_sort_children:
  assumes "\<And>t. key (sort_children key False t) = key t"
  shows "sorted_at_every_level key (sort_children key False t)"
proof (induction t)
  case (ShapeNode l cs)
  have "map key (map (sort_children key False) xs) = map key xs" for xs
    by (induction xs) (simp_all add: assms)
  then have "map key (map (sort_children key False) (sort_key key cs)) = map key (sort_key key cs)"
    by blast
  then have "sorted (map key (map (sort_children key False) (sort_key key cs)))"
    by (simp only: sorted_sort_key)
  moreover have "\<forall>c \<in> set (sort_key key cs). sorted_at_every_level key (sort_children key False c)"
    using ShapeNode by simp
  ultimately show ?case
    by (simp add: list_sort_def)
qed

lemma sum_list_insort_key:
  "sum_list (map f (insort_key k x xs)) = (f x :: nat) + sum_list (map f xs)"
  by (induction xs) simp_all

lemma sum_list_sort_key:
  "sum_list (map f (sort_key k xs)) = (sum_list (map f xs) :: nat)"
  by (induction xs) (simp_all add: sum_list_insort_key)

lemma nodes_sort_children: "nodes (sort_children key False t) = nodes t"
proof (induction t)
  case (ShapeNode l cs)
  have "set ys \<subseteq> set cs \<Longrightarrow>
      sum_list (map nodes (map (sort_children key False) ys)) = sum_list (map nodes ys)" for ys
    by (induction ys) (simp_all add: ShapeNode)
  then have "sum_list (map nodes (map (sort_children key False) (sort_key key cs))) =
      sum_list (map nodes (sort_key key cs))"
    by simp
  then show ?case
    by (simp add: list_sort_def sum_list_sort_key del: map_map)
qed

text \<open>
  C2, as amended. Before the distance is taken, the children at every level of each tree
  are sorted by one key per tree: whether the label is missing among the labels of the
  children of the other tree's root, then the label. The same label set, that of the
  other root's children, is used at every level; the sort keeps every node.
\<close>

theorem canonical_pair_sorted:
  "sorted_at_every_level (sort_key_against tree_2) (fst (canonical_pair tree_1 tree_2)) \<and>
   sorted_at_every_level (sort_key_against tree_1) (snd (canonical_pair tree_1 tree_2)) \<and>
   nodes (fst (canonical_pair tree_1 tree_2)) = nodes tree_1 \<and>
   nodes (snd (canonical_pair tree_1 tree_2)) = nodes tree_2 \<and>
   compute_tree_edit_distance tree_1 tree_2 =
     simple_distance (fst (canonical_pair tree_1 tree_2)) (snd (canonical_pair tree_1 tree_2))"
proof -
  have 1: "sorted_at_every_level (sort_key_against tree_2)
      (sort_children (sort_key_against tree_2) False tree_1)"
    by (rule sorted_sort_children) simp
  have eq: "sort_key_against (sort_children (sort_key_against tree_2) False tree_1)
      = sort_key_against tree_1"
    by (rule sort_key_against_cong) (rule labels_sort_children)
  have 2: "sorted_at_every_level (sort_key_against tree_1)
      (sort_children (sort_key_against tree_1) False tree_2)"
    by (rule sorted_sort_children) simp
  show ?thesis
    using 1 2
    by (simp add: canonical_pair_def compute_tree_edit_distance_def Let_def eq
        nodes_sort_children)
qed

text \<open>The ordering of two trees whose root children come in different orders.\<close>

theorem canonical_pair_sorted_witness:
  "canonical_pair unordered_tree_1 unordered_tree_2 =
     (ShapeNode ''Person''
        [ShapeNode ''knows'' [ShapeNode ''IRI'' [ShapeNode ''*'' []]],
         ShapeNode ''age'' [ShapeNode ''LITERAL'' [ShapeNode ''?'' []]],
         ShapeNode ''name'' [ShapeNode ''LITERAL'' [ShapeNode ''*'' []]]],
      ShapeNode ''Person''
        [ShapeNode ''knows'' [ShapeNode ''IRI'' [ShapeNode ''+'' []]],
         ShapeNode ''email'' [ShapeNode ''LITERAL'' [ShapeNode ''*'' []]]]) \<and>
   sorted_at_every_level (sort_key_against unordered_tree_2)
     (fst (canonical_pair unordered_tree_1 unordered_tree_2)) \<and>
   sorted_at_every_level (sort_key_against unordered_tree_1)
     (snd (canonical_pair unordered_tree_1 unordered_tree_2))"
proof -
  have "canonical_pair unordered_tree_1 unordered_tree_2 =
     (ShapeNode ''Person''
        [ShapeNode ''knows'' [ShapeNode ''IRI'' [ShapeNode ''*'' []]],
         ShapeNode ''age'' [ShapeNode ''LITERAL'' [ShapeNode ''?'' []]],
         ShapeNode ''name'' [ShapeNode ''LITERAL'' [ShapeNode ''*'' []]]],
      ShapeNode ''Person''
        [ShapeNode ''knows'' [ShapeNode ''IRI'' [ShapeNode ''+'' []]],
         ShapeNode ''email'' [ShapeNode ''LITERAL'' [ShapeNode ''*'' []]]])"
    by code_simp
  then show ?thesis
    using canonical_pair_sorted [of unordered_tree_2 unordered_tree_1] by simp
qed

text \<open>
  The source leaves \<open>IRI\<close> before \<open>LITERAL\<close> below \<open>knows\<close>, although only \<open>LITERAL\<close>
  appears among the children of the corresponding node of the other tree: neither label is
  a child of the other root, so the label alone decides.
\<close>

theorem canonical_pair_not_paired_counterexample:
  "canonical_pair paired_tree_1 paired_tree_2 = (paired_tree_1, paired_tree_2) \<and>
   \<not> paired_first
       (map label (children (hd (children (fst (canonical_pair paired_tree_1 paired_tree_2))))))
       (map label (children (hd (children (snd (canonical_pair paired_tree_1 paired_tree_2))))))"
  by code_simp

section \<open>The comment reinserter\<close>

lemma insert_at_anchor_no_match:
  "\<forall>x \<in> set ls. \<not> anchor_matches x (location_field c) \<Longrightarrow> insert_at_anchor c ls = ls"
  by (induction ls) simp_all

lemma insert_at_anchor_first_match:
  assumes "\<forall>x \<in> set pre. \<not> anchor_matches x (location_field c)"
    and "anchor_matches l (location_field c)"
  shows "insert_at_anchor c (pre @ l # post) =
     (if type_field c = ''general'' then pre @ comment_field c # l # post
      else pre @ (rstrip l @ ''  '' @ lstrip (comment_field c)) # post)"
  using assms by (induction pre) simp_all

text \<open>
  C5. The records are processed in reverse document order (\<open>foldr\<close> applies the last
  record first). A record whose anchor is the integer 0 is inserted as the first line.
  Otherwise the first line that equals the anchor, or equals it once its trailing spaces
  and semicolons are stripped, receives the comment: as a new line before it for a
  general record, and appended to it after two spaces for any other record, the line
  without its trailing whitespace and the comment without its leading whitespace. If no
  line matches, the lines stay as they are.
\<close>

theorem insert_comments_anchored:
  "(cs \<noteq> [] \<longrightarrow>
      insert_comments text (Some cs) =
        join [CHR 0x0A] (foldr insert_comment cs (split_char (CHR 0x0A) text))) \<and>
   (location_field c = IntLoc 0 \<longrightarrow> insert_comment c ls = comment_field c # ls) \<and>
   (location_field c = StrLoc a \<and>
    (\<forall>x \<in> set pre. x \<noteq> a \<and> rstrip_chars x '' ;'' \<noteq> a) \<and>
    (l = a \<or> rstrip_chars l '' ;'' = a) \<longrightarrow>
      insert_comment c (pre @ l # post) =
        (if type_field c = ''general'' then pre @ comment_field c # l # post
         else pre @ (rstrip l @ ''  '' @ lstrip (comment_field c)) # post)) \<and>
   (location_field c = StrLoc a \<and> (\<forall>x \<in> set ls. x \<noteq> a \<and> rstrip_chars x '' ;'' \<noteq> a) \<longrightarrow>
      insert_comment c ls = ls)"
proof (intro conjI impI)
  assume "cs \<noteq> []"
  then show "insert_comments text (Some cs) =
      join [CHR 0x0A] (foldr insert_comment cs (split_char (CHR 0x0A) text))"
    by (simp add: insert_comments_def foldr_conv_fold)
next
  assume "location_field c = IntLoc 0"
  then show "insert_comment c ls = comment_field c # ls"
    by (simp add: insert_comment_def)
next
  assume h: "location_field c = StrLoc a \<and>
    (\<forall>x \<in> set pre. x \<noteq> a \<and> rstrip_chars x '' ;'' \<noteq> a) \<and>
    (l = a \<or> rstrip_chars l '' ;'' = a)"
  then have "\<forall>x \<in> set pre. \<not> anchor_matches x (location_field c)"
    and "anchor_matches l (location_field c)"
    by (auto simp: anchor_matches_def)
  from insert_at_anchor_first_match [OF this]
  show "insert_comment c (pre @ l # post) =
        (if type_field c = ''general'' then pre @ comment_field c # l # post
         else pre @ (rstrip l @ ''  '' @ lstrip (comment_field c)) # post)"
    using h by (simp add: insert_comment_def)
next
  assume h: "location_field c = StrLoc a \<and>
    (\<forall>x \<in> set ls. x \<noteq> a \<and> rstrip_chars x '' ;'' \<noteq> a)"
  then have "\<forall>x \<in> set ls. \<not> anchor_matches x (location_field c)"
    by (auto simp: anchor_matches_def)
  from insert_at_anchor_no_match [OF this]
  show "insert_comment c ls = ls"
    using h by (simp add: insert_comment_def)
qed

text \<open>
  The four sample records on the serialized schema: the whole reinsertion, and each record
  alone.
\<close>

theorem insert_comments_anchored_witness:
  "insert_comments (join [CHR 0x0A] serialized_lines) (Some sample_comments) =
     join [CHR 0x0A]
       [''# licence'', ''PREFIX ex: <http://ex/>'', ''# the shape'', ''<S> {'',
        ''  ex:p . ;  # inline'', ''}''] \<and>
   insert_comment (sample_comments ! 0) serialized_lines =
     [''# licence'', ''PREFIX ex: <http://ex/>'', ''<S> {'', ''  ex:p . ;'', ''}''] \<and>
   insert_comment (sample_comments ! 1) serialized_lines =
     [''PREFIX ex: <http://ex/>'', ''# the shape'', ''<S> {'', ''  ex:p . ;'', ''}''] \<and>
   insert_comment (sample_comments ! 2) serialized_lines =
     [''PREFIX ex: <http://ex/>'', ''<S> {'', ''  ex:p . ;  # inline'', ''}''] \<and>
   insert_comment (sample_comments ! 3) serialized_lines = serialized_lines"
proof -
  let ?text = "join [CHR 0x0A] serialized_lines"
  have ne: "sample_comments \<noteq> []"
    by (simp add: sample_comments_def)
  have run: "join [CHR 0x0A] (foldr insert_comment sample_comments (split_char (CHR 0x0A) ?text)) =
     join [CHR 0x0A]
       [''# licence'', ''PREFIX ex: <http://ex/>'', ''# the shape'', ''<S> {'',
        ''  ex:p . ;  # inline'', ''}'']"
    by code_simp
  have all: "insert_comments ?text (Some sample_comments) =
     join [CHR 0x0A]
       [''# licence'', ''PREFIX ex: <http://ex/>'', ''# the shape'', ''<S> {'',
        ''  ex:p . ;  # inline'', ''}'']"
    using insert_comments_anchored [of sample_comments ?text] ne run by simp
  have c0: "insert_comment (sample_comments ! 0) serialized_lines =
     [''# licence'', ''PREFIX ex: <http://ex/>'', ''<S> {'', ''  ex:p . ;'', ''}'']"
    using insert_comments_anchored [of sample_comments ?text "sample_comments ! 0"
        serialized_lines]
    by (simp add: sample_comments_def serialized_lines_def)
  have c1: "insert_comment (sample_comments ! 1) serialized_lines =
     [''PREFIX ex: <http://ex/>'', ''# the shape'', ''<S> {'', ''  ex:p . ;'', ''}'']"
    using insert_comments_anchored [of sample_comments ?text "sample_comments ! 1"
        serialized_lines "''<S> {''" "[''PREFIX ex: <http://ex/>'']" "''<S> {''"
        "[''  ex:p . ;'', ''}'']"]
    by (simp add: sample_comments_def serialized_lines_def rstrip_chars_def)
  have c2: "insert_comment (sample_comments ! 2) serialized_lines =
     [''PREFIX ex: <http://ex/>'', ''<S> {'', ''  ex:p . ;  # inline'', ''}'']"
    using insert_comments_anchored [of sample_comments ?text "sample_comments ! 2"
        serialized_lines "''  ex:p .''" "[''PREFIX ex: <http://ex/>'', ''<S> {'']"
        "''  ex:p . ;''" "[''}'']"]
    by (simp add: sample_comments_def serialized_lines_def rstrip_chars_def rstrip_def
        lstrip_def isspace_def)
  have c3: "insert_comment (sample_comments ! 3) serialized_lines = serialized_lines"
    using insert_comments_anchored [of sample_comments ?text "sample_comments ! 3"
        serialized_lines "''  ex:q .''"]
    by (simp add: sample_comments_def serialized_lines_def rstrip_chars_def)
  show ?thesis
    using all c0 c1 c2 c3 by (simp add: serialized_lines_def)
qed

section \<open>The converter\<close>

lemma set_strip_subset: "set (strip s) \<subseteq> set s"
proof -
  have d: "set (dropWhile P xs) \<subseteq> set xs" for P and xs :: string
    by (rule set_dropWhileD [THEN subsetI])
  have "set (strip s) \<subseteq> set (rstrip s)"
    unfolding strip_def lstrip_def by (rule d)
  also have "set (rstrip s) \<subseteq> set (rev s)"
    unfolding rstrip_def set_rev [of "dropWhile isspace (rev s)"] by (rule d)
  finally show ?thesis
    by simp
qed

lemma startswith_hash: "startswith (strip line) ''#'' \<Longrightarrow> CHR ''#'' \<in> set line"
proof -
  assume "startswith (strip line) ''#''"
  then have "CHR ''#'' \<in> set (strip line)"
    by (cases "strip line") (simp_all add: startswith_def)
  then show ?thesis
    using set_strip_subset by blast
qed

lemma locate_comment_general: "\<exists>loc. locate_comment ls ''general'' = Inr loc"
  by (simp add: locate_comment_def)

lemma locate_comment_constraint:
  "CHR ''#'' \<in> set line \<Longrightarrow> \<exists>loc. locate_comment (line # rest) ''constraint'' = Inr loc"
  by (simp add: locate_comment_def)

lemma comment_loop_total: "\<exists>cs. comment_loop n idx ls = Inr cs"
proof (induction ls arbitrary: idx)
  case Nil
  show ?case by simp
next
  case (Cons line rest)
  obtain others where o: "comment_loop n (Suc idx) rest = Inr others"
    using Cons by blast
  obtain g where g: "locate_comment (line # rest) ''general'' = Inr g"
    using locate_comment_general by blast
  show ?case
  proof (cases "CHR ''#'' \<in> set line")
    case True
    then obtain c where c: "locate_comment (line # rest) ''constraint'' = Inr c"
      using locate_comment_constraint by blast
    show ?thesis
      by (simp add: o g c Let_def)
  next
    case False
    then have "\<not> startswith (strip line) ''#''"
      using startswith_hash by blast
    with False show ?thesis
      by (simp add: o Let_def)
  qed
qed

lemma comment_parser_helper_total: "\<exists>cs. comment_parser_helper text = Inr cs"
  by (simp add: comment_parser_helper_def comment_loop_total)

lemma load_metadata_total:
  "\<exists>cs. comment_parser_helper text = Inr cs \<and>
     load_metadata P shexj_text text =
       Inr (shexj_text, base_uri_parser_helper text,
            Some (namespaces_parser_helper (extract_prefix_declarations P) (StrInput text)),
            Some cs)"
proof -
  obtain cs where "comment_parser_helper text = Inr cs"
    using comment_parser_helper_total by blast
  then show ?thesis
    by (simp add: load_metadata_def)
qed

text \<open>
  C1, as amended. Whenever the retry on the line-stripped text succeeds, the base-URI
  scan, the namespace scan and the comment extraction are run against the line-stripped
  text, the one the schema was parsed from, and their results are returned.
\<close>

theorem retry_scans_reduced_text:
  assumes "ShExEvaluator P text = (None, errors)" and "errors \<noteq> []"
    and "fst (ShExEvaluator P (remove_lines text (remdups (map line_field errors)))) =
           Some schema"
  shows "\<exists>comments.
           comment_parser_helper (remove_lines text (remdups (map line_field errors))) =
             Inr comments \<and>
           snd (shexc_to_shexj P text) =
             Inr (as_json P schema,
                  base_uri_parser_helper (remove_lines text (remdups (map line_field errors))),
                  Some (namespaces_parser_helper (extract_prefix_declarations P)
                          (StrInput (remove_lines text (remdups (map line_field errors))))),
                  Some comments)"
proof -
  let ?reduced = "remove_lines text (remdups (map line_field errors))"
  obtain cs where cs: "comment_parser_helper ?reduced = Inr cs"
    and "load_metadata P (as_json P schema) ?reduced =
       Inr (as_json P schema, base_uri_parser_helper ?reduced,
            Some (namespaces_parser_helper (extract_prefix_declarations P) (StrInput ?reduced)),
            Some cs)"
    using load_metadata_total by blast
  then have "snd (shexc_to_shexj P text) =
       Inr (as_json P schema, base_uri_parser_helper ?reduced,
            Some (namespaces_parser_helper (extract_prefix_declarations P) (StrInput ?reduced)),
            Some cs)"
    using assms by (simp add: shexc_to_shexj_def Let_def)
  with cs show ?thesis by blast
qed

text \<open>The retry on the sample text: the scans see the two remaining lines.\<close>

theorem retry_scans_reduced_text_witness:
  "ShExEvaluator line_two_engine broken_text =
     (None, [\<lparr>message_field = ''syntax error'', line_field = 2\<rparr>,
             \<lparr>message_field = ''unexpected token'', line_field = 2\<rparr>]) \<and>
   fst (ShExEvaluator line_two_engine (join [CHR 0x0A] [''<S> {'', ''}''])) = Some () \<and>
   comment_parser_helper (join [CHR 0x0A] [''<S> {'', ''}'']) = Inr [] \<and>
   snd (shexc_to_shexj line_two_engine broken_text) =
     Inr (''{}'', base_uri_parser_helper (join [CHR 0x0A] [''<S> {'', ''}'']), Some [], Some [])"
proof -
  let ?errors = "[\<lparr>message_field = ''syntax error'', line_field = 2\<rparr>,
                  \<lparr>message_field = ''unexpected token'', line_field = 2\<rparr>]"
  have e: "ShExEvaluator line_two_engine broken_text = (None, ?errors)"
    by (simp add: line_two_engine_def)
  have ne: "?errors \<noteq> []"
    by simp
  have red: "remove_lines broken_text (remdups (map line_field ?errors)) =
      join [CHR 0x0A] [''<S> {'', ''}'']"
    by code_simp
  have s: "fst (ShExEvaluator line_two_engine (join [CHR 0x0A] [''<S> {'', ''}''])) = Some ()"
    by code_simp
  have c: "comment_parser_helper (join [CHR 0x0A] [''<S> {'', ''}'']) = Inr []"
    by code_simp
  have x: "extract_prefix_declarations line_two_engine = (\<lambda>text. [])"
    and j: "as_json line_two_engine () = ''{}''"
    by (simp_all add: line_two_engine_def)
  from retry_scans_reduced_text [OF e ne, unfolded red, OF s]
  have "snd (shexc_to_shexj line_two_engine broken_text) =
     Inr (''{}'', base_uri_parser_helper (join [CHR 0x0A] [''<S> {'', ''}'']), Some [], Some [])"
    unfolding c x j by (simp add: namespaces_parser_helper_def)
  then show ?thesis
    using e s c by simp
qed

text \<open>
  The inline comment of the dropped line is extracted from the original text but is not
  among the comments the conversion returns.
\<close>

theorem retry_scans_original_counterexample:
  "snd (shexc_to_shexj line_two_engine broken_text) = Inr (''{}'', None, Some [], Some []) \<and>
   comment_parser_helper broken_text =
     Inr [\<lparr>comment_field = ''# broken'', type_field = ''constraint'',
            location_field = StrLoc ''  ex:p @@@ ;''\<rparr>]"
  by code_simp

section \<open>Bounds on the tree edit distance\<close>

lemma forest_label_count_last:
  assumes "F \<noteq> []"
  shows "forest_label_count l F =
     forest_label_count l (butlast F) + forest_label_count l (children (last F))
     + (if label (last F) = l then 1 else 0)"
proof -
  obtain G t where F: "F = G @ [t]"
    using assms by (metis append_butlast_last_id)
  obtain a cs where t: "t = ShapeNode a cs"
    by (cases t) auto
  show ?thesis
    by (simp add: F t forest_label_count_def)
qed

lemma forest_label_count_drop_root:
  assumes "F \<noteq> []"
  shows "forest_label_count l F =
     forest_label_count l (drop_root F) + (if label (last F) = l then 1 else 0)"
proof -
  have "forest_label_count l (drop_root F) =
      forest_label_count l (butlast F) + forest_label_count l (children (last F))"
    by (simp add: drop_root_def forest_label_count_def)
  then show ?thesis
    using forest_label_count_last [OF assms, of l] by simp
qed

lemma forest_label_count_Nil [simp]: "forest_label_count l [] = 0"
  by (simp add: forest_label_count_def)

lemma forestdist_label_count:
  "l \<noteq> [] \<Longrightarrow> forest_label_count l F \<le> forestdist F G + forest_label_count l G"
proof (induction F G rule: forestdist.induct)
  case (1 F G)
  show ?case
  proof (cases "F = []")
    case True
    then show ?thesis by simp
  next
    case False
    note F = this
    show ?thesis
    proof (cases "G = []")
      case True
      have ih: "forest_label_count l (drop_root F) \<le>
          forestdist (drop_root F) [] + forest_label_count l []"
        using "1.IH"(1) F True "1.prems" by simp
      have "(if label (last F) = l then 1 else 0) \<le> strdist (label (last F)) ''''"
        using "1.prems" by (simp add: strdist_def)
      then show ?thesis
        using ih True F forest_label_count_drop_root [OF F, of l]
        by (simp add: forestdist_right_empty)
    next
      case False
      note G = this
      have a: "forest_label_count l (drop_root F) \<le>
          forestdist (drop_root F) G + forest_label_count l G"
        using "1.IH"(3) F G "1.prems" by simp
      have b: "forest_label_count l F \<le>
          forestdist F (drop_root G) + forest_label_count l (drop_root G)"
        using "1.IH"(4) F G "1.prems" by simp
      have c: "forest_label_count l (butlast F) \<le>
          forestdist (butlast F) (butlast G) + forest_label_count l (butlast G)"
        using "1.IH"(5) F G "1.prems" by simp
      have d: "forest_label_count l (children (last F)) \<le>
          forestdist (children (last F)) (children (last G))
          + forest_label_count l (children (last G))"
        using "1.IH"(6) F G "1.prems" by simp
      have del: "(if label (last F) = l then 1 else 0) \<le> strdist (label (last F)) ''''"
        using "1.prems" by (simp add: strdist_def)
      have upd: "(if label (last F) = l then 1 else 0) \<le>
          strdist (label (last F)) (label (last G)) + (if label (last G) = l then 1 else (0::nat))"
        by (simp add: strdist_def)
      have 1: "forest_label_count l F \<le>
          forestdist (drop_root F) G + strdist (label (last F)) '''' + forest_label_count l G"
        using a del forest_label_count_drop_root [OF F, of l] by linarith
      have 2: "forest_label_count l F \<le>
          forestdist F (drop_root G) + strdist '''' (label (last G)) + forest_label_count l G"
        using b forest_label_count_drop_root [OF G, of l] by linarith
      have 3: "forest_label_count l F \<le>
          forestdist (butlast F) (butlast G)
          + forestdist (children (last F)) (children (last G))
          + strdist (label (last F)) (label (last G)) + forest_label_count l G"
        using c d upd forest_label_count_last [OF F, of l] forest_label_count_last [OF G, of l]
        by linarith
      show ?thesis
        unfolding forestdist_nonempty [OF F G]
        using 1 2 3 by (simp add: min_def)
    qed
  qed
qed

lemma forestdist_match_le:
  "forestdist [ShapeNode a cs] [ShapeNode b ds] \<le> forestdist cs ds + strdist a b"
proof -
  have "forestdist [ShapeNode a cs] [ShapeNode b ds] \<le>
      forestdist (butlast [ShapeNode a cs]) (butlast [ShapeNode b ds])
      + forestdist (children (last [ShapeNode a cs])) (children (last [ShapeNode b ds]))
      + strdist (label (last [ShapeNode a cs])) (label (last [ShapeNode b ds]))"
    by (subst forestdist_nonempty) simp_all
  then show ?thesis
    by (simp add: forestdist_both_empty)
qed

lemma sort_children_one_constraint_tree:
  "sort_children key False (one_constraint_tree r p n c) = one_constraint_tree r p n c"
  by (simp add: one_constraint_tree_def list_sort_def)

lemma one_constraint_distance_le:
  "simple_distance (one_constraint_tree r p n c1) (one_constraint_tree r p n c2) \<le> 1"
proof -
  have "forestdist [ShapeNode c1 []] [ShapeNode c2 []] \<le> 1"
    using forestdist_match_le [of c1 "[]" c2 "[]"]
    by (simp add: forestdist_both_empty strdist_def split: if_splits)
  then have "forestdist [ShapeNode n [ShapeNode c1 []]] [ShapeNode n [ShapeNode c2 []]] \<le> 1"
    using forestdist_match_le [of n "[ShapeNode c1 []]" n "[ShapeNode c2 []]"]
    by (simp add: strdist_def)
  then have "forestdist [ShapeNode p [ShapeNode n [ShapeNode c1 []]]]
      [ShapeNode p [ShapeNode n [ShapeNode c2 []]]] \<le> 1"
    using forestdist_match_le [of p "[ShapeNode n [ShapeNode c1 []]]"
        p "[ShapeNode n [ShapeNode c2 []]]"]
    by (simp add: strdist_def)
  then show ?thesis
    using forestdist_match_le [of r "[ShapeNode p [ShapeNode n [ShapeNode c1 []]]]"
        r "[ShapeNode p [ShapeNode n [ShapeNode c2 []]]]"]
    by (simp add: simple_distance_def one_constraint_tree_def strdist_def)
qed

lemma label_count_one_constraint_tree:
  "label_count l (one_constraint_tree r p n c) =
     (if r = l then 1 else 0) + (if p = l then 1 else 0) + (if n = l then 1 else 0)
     + (if c = l then 1 else 0)"
  by (simp add: one_constraint_tree_def)

lemma one_constraint_distance_ge:
  assumes "c1 \<noteq> c2"
  shows "1 \<le> simple_distance (one_constraint_tree r p n c1) (one_constraint_tree r p n c2)"
proof (cases "c1 = []")
  case False
  have "forest_label_count c1 [one_constraint_tree r p n c1] \<le>
      forestdist [one_constraint_tree r p n c1] [one_constraint_tree r p n c2]
      + forest_label_count c1 [one_constraint_tree r p n c2]"
    using forestdist_label_count [OF False] .
  then show ?thesis
    using assms
    by (simp add: forest_label_count_def label_count_one_constraint_tree simple_distance_def)
next
  case True
  then have ne: "c2 \<noteq> []"
    using assms by simp
  have "forest_label_count c2 [one_constraint_tree r p n c2] \<le>
      forestdist [one_constraint_tree r p n c2] [one_constraint_tree r p n c1]
      + forest_label_count c2 [one_constraint_tree r p n c1]"
    using forestdist_label_count [OF ne] .
  then show ?thesis
    using assms
    by (simp add: forest_label_count_def label_count_one_constraint_tree simple_distance_def
        forestdist_sym [of "[one_constraint_tree r p n c2]"])
qed

section \<open>The evaluator\<close>

lemma evaluate_class_missing:
  assumes "files E (pred_shex_path predicted_dir (fst c)) = None"
  shows "(\<exists>e. evaluate_class E dataset ground_truth_dir predicted_dir c = Inl e) \<or>
         evaluate_class E dataset ground_truth_dir predicted_dir c = Inr None"
  using assms
  by (cases c)
    (auto simp: evaluate_class_def pred_shex_path_def Let_def split: option.splits sum.splits)

lemma evaluate_loop_missing:
  assumes "\<forall>c \<in> set cs. files E (pred_shex_path predicted_dir (fst c)) = None"
  shows "(\<exists>e. evaluate_loop E dataset ground_truth_dir predicted_dir cs acc = Inl e) \<or>
         evaluate_loop E dataset ground_truth_dir predicted_dir cs acc = Inr acc"
  using assms
proof (induction cs)
  case Nil
  show ?case by simp
next
  case (Cons c cs)
  then have "files E (pred_shex_path predicted_dir (fst c)) = None"
    by simp
  from evaluate_class_missing [OF this, of dataset ground_truth_dir]
  show ?case
  proof
    assume "\<exists>e. evaluate_class E dataset ground_truth_dir predicted_dir c = Inl e"
    then show ?thesis by auto
  next
    assume "evaluate_class E dataset ground_truth_dir predicted_dir c = Inr None"
    then show ?thesis
      using Cons by simp
  qed
qed

text \<open>
  C10. If the predicted schema file is missing for every class of the batch (in
  particular if the batch is empty), the evaluator raises an error and reports no mean;
  when the loop itself completes, the error is the division by zero of the final
  aggregation. A mean is returned only if the loop collected at least one distance, and
  it is the sum of the distances divided by their number.
\<close>

theorem no_comparison_no_mean:
  "((\<forall>c \<in> set (zip class_urls class_labels).
        files E (pred_shex_path predicted_dir (fst c)) = None) \<longrightarrow>
      (\<exists>e. evaluate_ted E dataset class_urls class_labels ground_truth_dir predicted_dir =
              Inl e) \<and>
      ((\<exists>acc. evaluate_loop E dataset ground_truth_dir predicted_dir
                 (zip class_urls class_labels) ([], []) = Inr acc) \<longrightarrow>
         evaluate_ted E dataset class_urls class_labels ground_truth_dir predicted_dir =
           Inl ZeroDivisionError)) \<and>
   evaluate_ted E dataset [] class_labels ground_truth_dir predicted_dir =
     Inl ZeroDivisionError \<and>
   (evaluate_ted E dataset class_urls class_labels ground_truth_dir predicted_dir = Inr mean \<longrightarrow>
      (\<exists>teds normalized_teds.
         evaluate_loop E dataset ground_truth_dir predicted_dir
           (zip class_urls class_labels) ([], []) = Inr (teds, normalized_teds) \<and>
         teds \<noteq> [] \<and> mean = sum_list teds / of_nat (length teds)))"
proof (intro conjI impI)
  assume m: "\<forall>c \<in> set (zip class_urls class_labels).
      files E (pred_shex_path predicted_dir (fst c)) = None"
  from evaluate_loop_missing [OF this, of dataset ground_truth_dir "([], [])"]
  show "\<exists>e. evaluate_ted E dataset class_urls class_labels ground_truth_dir predicted_dir = Inl e"
    by (auto simp: evaluate_ted_def average_ted_def)
  assume "\<exists>acc. evaluate_loop E dataset ground_truth_dir predicted_dir
      (zip class_urls class_labels) ([], []) = Inr acc"
  with evaluate_loop_missing [OF m, of dataset ground_truth_dir "([], [])"]
  show "evaluate_ted E dataset class_urls class_labels ground_truth_dir predicted_dir =
      Inl ZeroDivisionError"
    by (auto simp: evaluate_ted_def average_ted_def)
next
  show "evaluate_ted E dataset [] class_labels ground_truth_dir predicted_dir =
      Inl ZeroDivisionError"
    by (simp add: evaluate_ted_def average_ted_def)
next
  assume "evaluate_ted E dataset class_urls class_labels ground_truth_dir predicted_dir =
      Inr mean"
  then show "\<exists>teds normalized_teds.
      evaluate_loop E dataset ground_truth_dir predicted_dir
        (zip class_urls class_labels) ([], []) = Inr (teds, normalized_teds) \<and>
      teds \<noteq> [] \<and> mean = sum_list teds / of_nat (length teds)"
    by (auto simp: evaluate_ted_def average_ted_def split: sum.splits if_splits)
qed

text \<open>
  The class \<open>Q5\<close>, with a ground-truth file and no predicted file, alone: the loop skips
  it and the aggregation divides by zero. Together with the class \<open>Q42\<close>, which has both
  files: the mean is taken over the one compared class.
\<close>

theorem no_comparison_no_mean_witness:
  "files sample_eval_env (pred_shex_path ''predicted'' ''http://www.wikidata.org/entity/Q5'') =
     None \<and>
   evaluate_loop sample_eval_env ''wes'' ''truth'' ''predicted''
     (zip [''http://www.wikidata.org/entity/Q5''] [''Person'']) ([], []) = Inr ([], []) \<and>
   evaluate_ted sample_eval_env ''wes'' [''http://www.wikidata.org/entity/Q5''] [''Person'']
     ''truth'' ''predicted'' = Inl ZeroDivisionError \<and>
   evaluate_loop sample_eval_env ''wes'' ''truth'' ''predicted''
     (zip [''http://www.wikidata.org/entity/Q5'', ''http://www.wikidata.org/entity/Q42'']
        [''Person'', ''Person'']) ([], []) = Inr ([1], [Finite (1 / 3)]) \<and>
   evaluate_ted sample_eval_env ''wes''
     [''http://www.wikidata.org/entity/Q5'', ''http://www.wikidata.org/entity/Q42'']
     [''Person'', ''Person''] ''truth'' ''predicted'' = Inr 1"
proof -
  have f: "files sample_eval_env
      (pred_shex_path ''predicted'' ''http://www.wikidata.org/entity/Q5'') = None"
    by code_simp
  have l: "evaluate_loop sample_eval_env ''wes'' ''truth'' ''predicted''
     (zip [''http://www.wikidata.org/entity/Q5''] [''Person'']) ([], []) = Inr ([], [])"
    by code_simp
  have l2: "evaluate_loop sample_eval_env ''wes'' ''truth'' ''predicted''
     (zip [''http://www.wikidata.org/entity/Q5'', ''http://www.wikidata.org/entity/Q42'']
        [''Person'', ''Person'']) ([], []) = Inr ([1], [Finite (1 / 3)])"
    by code_simp
  have m: "evaluate_ted sample_eval_env ''wes''
     [''http://www.wikidata.org/entity/Q5'', ''http://www.wikidata.org/entity/Q42'']
     [''Person'', ''Person''] ''truth'' ''predicted'' = Inr 1"
    unfolding evaluate_ted_def l2 by (simp add: average_ted_def)
  have "\<forall>c \<in> set (zip [''http://www.wikidata.org/entity/Q5''] [''Person'']).
      files sample_eval_env (pred_shex_path ''predicted'' (fst c)) = None"
    using f by simp
  with l have "evaluate_ted sample_eval_env ''wes'' [''http://www.wikidata.org/entity/Q5'']
      [''Person''] ''truth'' ''predicted'' = Inl ZeroDivisionError"
    using no_comparison_no_mean [of "[''http://www.wikidata.org/entity/Q5'']" "[''Person'']"
        sample_eval_env "''predicted''" "''wes''" "''truth''"]
    by blast
  then show ?thesis
    using f l l2 m by simp
qed

section \<open>The retry of the converter\<close>

lemma filter_numbered_nths:
  "map snd (filter (\<lambda>(i, line). int i \<notin> S) (zip [k ..< k + length xs] xs)) =
     nths xs {i. int (i + k) \<notin> S}"
proof (induction xs arbitrary: k)
  case Nil
  show ?case by simp
next
  case (Cons x xs)
  let ?keep = "\<lambda>(i, line :: 'a). int i \<notin> S"
  have "k < k + length (x # xs)"
    by simp
  then have "[k ..< k + length (x # xs)] = k # [Suc k ..< k + length (x # xs)]"
    by (rule upt_conv_Cons)
  then have u: "[k ..< k + length (x # xs)] = k # [Suc k ..< Suc k + length xs]"
    by simp
  have ih: "map snd (filter ?keep (zip [Suc k ..< Suc k + length xs] xs)) =
      nths xs {i. int (i + Suc k) \<notin> S}"
    by (rule Cons.IH)
  have "Suc j + k = j + Suc k" for j
    by simp
  then have s: "{j. Suc j \<in> {i. int (i + k) \<notin> S}} = {i. int (i + Suc k) \<notin> S}"
    by (simp only: mem_Collect_eq)
  have z: "(0 \<in> {i. int (i + k) \<notin> S}) = (int k \<notin> S)"
    by simp
  have left: "map snd (filter ?keep (zip [k ..< k + length (x # xs)] (x # xs))) =
      (if int k \<notin> S then [x] else []) @ nths xs {i. int (i + Suc k) \<notin> S}"
    unfolding u using ih by simp
  have right: "nths (x # xs) {i. int (i + k) \<notin> S} =
      (if int k \<notin> S then [x] else []) @ nths xs {i. int (i + Suc k) \<notin> S}"
    by (simp only: nths_Cons s z)
  show ?case
    unfolding left right ..
qed

lemma remove_lines_nths:
  "remove_lines text removed_lines =
     join [CHR 0x0A] (nths (splitlines text) {i. int (Suc i) \<notin> set removed_lines})"
proof -
  have "map snd (filter (\<lambda>(i, line). int i \<notin> set removed_lines)
      (zip [1 ..< 1 + length (splitlines text)] (splitlines text))) =
      nths (splitlines text) {i. int (i + 1) \<notin> set removed_lines}"
    by (rule filter_numbered_nths)
  then show ?thesis
    by (simp add: remove_lines_def Let_def)
qed

lemma shexc_to_shexj_returns: "\<exists>r. snd (shexc_to_shexj P text) = Inr r"
proof -
  have "\<exists>r. load_metadata P j t = Inr r" for j t
    using load_metadata_total [of t P j] by blast
  then show ?thesis
    by (auto simp: shexc_to_shexj_def Let_def unable_to_parse_def
        split: prod.splits option.splits)
qed

lemma splitlines_from_plain:
  assumes "\<forall>c \<in> set l. \<not> is_linebreak c"
  shows "splitlines_from cur l = (if cur = [] \<and> l = [] then [] else [rev cur @ l])"
  using assms
proof (induction l arbitrary: cur)
  case Nil
  show ?case by simp
next
  case (Cons c l)
  show ?case
  proof (cases l)
    case Nil
    with Cons.prems show ?thesis by simp
  next
    case (Cons d cs)
    have "\<not> is_linebreak c"
      using Cons.prems by simp
    then have "splitlines_from cur (c # d # cs) = splitlines_from (c # cur) (d # cs)"
      by (auto simp: is_linebreak_def)
    moreover have "splitlines_from (c # cur) (d # cs) = [rev (c # cur) @ d # cs]"
      using Cons.IH [of "c # cur"] Cons.prems Cons by simp
    ultimately show ?thesis
      using Cons by simp
  qed
qed

lemma linebreak_newline: "is_linebreak (CHR 0x0A)"
  by (simp add: is_linebreak_def)

lemma splitlines_from_line:
  assumes "\<forall>c \<in> set l. \<not> is_linebreak c"
  shows "splitlines_from cur (l @ CHR 0x0A # rest) = (rev cur @ l) # splitlines_from [] rest"
  using assms
proof (induction l arbitrary: cur)
  case Nil
  show ?case
    by (cases rest) (simp_all add: linebreak_newline)
next
  case (Cons c l)
  obtain d cs where dc: "l @ CHR 0x0A # rest = d # cs"
    by (cases l) auto
  have "\<not> is_linebreak c"
    using Cons.prems by simp
  then have "splitlines_from cur (c # d # cs) = splitlines_from (c # cur) (d # cs)"
    by (auto simp: is_linebreak_def)
  moreover have "splitlines_from (c # cur) (l @ CHR 0x0A # rest) =
      (rev (c # cur) @ l) # splitlines_from [] rest"
    using Cons.IH [of "c # cur"] Cons.prems by simp
  ultimately show ?case
    using dc by simp
qed

lemma splitlines_join:
  assumes "\<forall>l \<in> set ls. \<forall>c \<in> set l. \<not> is_linebreak c"
    and "ls \<noteq> [] \<longrightarrow> last ls \<noteq> []"
  shows "splitlines (join [CHR 0x0A] ls) = ls"
  using assms
proof (induction ls)
  case Nil
  show ?case by (simp add: splitlines_def)
next
  case (Cons x ys)
  have plain: "\<forall>c \<in> set x. \<not> is_linebreak c"
    using Cons.prems(1) by simp
  show ?case
  proof (cases ys)
    case Nil
    then have "x \<noteq> []"
      using Cons.prems(2) by simp
    then show ?thesis
      using Nil plain by (simp add: splitlines_def splitlines_from_plain)
  next
    case (Cons y zs)
    have "splitlines (join [CHR 0x0A] ys) = ys"
      using Cons.IH Cons.prems Cons by simp
    then have "splitlines_from [] (join [CHR 0x0A] (y # zs)) = y # zs"
      using Cons by (simp add: splitlines_def)
    then show ?thesis
      using Cons plain by (simp add: splitlines_def splitlines_from_line)
  qed
qed

text \<open>
  C4, as amended. If the first invocation of the grammar engine yields no schema and a
  non-empty list of errors, the engine is invoked exactly twice: on the input and on the
  text made of the lines of the input, in their order, whose number (from 1) is not the
  line of any reported error. If the second invocation yields a schema, the conversion
  returns the serialization of that schema. If it yields none, nothing is raised: the
  conversion returns the empty result \<open>("", None, None, None)\<close>, which holds no schema,
  and the engine is not invoked again.
\<close>

theorem retry_once_after_line_errors:
  assumes "ShExEvaluator P text = (None, errors)" and "errors \<noteq> []"
  shows "fst (shexc_to_shexj P text) =
           [text,
            join [CHR 0x0A]
              (nths (splitlines text) {i. int (Suc i) \<notin> line_field ` set errors})] \<and>
         (text = join [CHR 0x0A] ls \<and> (\<forall>l \<in> set ls. \<forall>c \<in> set l. \<not> is_linebreak c) \<and>
          (ls \<noteq> [] \<longrightarrow> last ls \<noteq> []) \<longrightarrow>
            fst (shexc_to_shexj P text) =
              [text, join [CHR 0x0A] (nths ls {i. int (Suc i) \<notin> line_field ` set errors})]) \<and>
         (\<forall>schema.
            fst (ShExEvaluator P
                   (join [CHR 0x0A]
                      (nths (splitlines text) {i. int (Suc i) \<notin> line_field ` set errors}))) =
              Some schema \<longrightarrow>
            (\<exists>base namespaces comments.
               snd (shexc_to_shexj P text) =
                 Inr (as_json P schema, base, namespaces, comments))) \<and>
         (fst (ShExEvaluator P
                 (join [CHR 0x0A]
                    (nths (splitlines text) {i. int (Suc i) \<notin> line_field ` set errors}))) =
            None \<longrightarrow>
            snd (shexc_to_shexj P text) = Inr ('''', None, None, None))"
proof -
  let ?reduced = "join [CHR 0x0A]
      (nths (splitlines text) {i. int (Suc i) \<notin> line_field ` set errors})"
  have red: "remove_lines text (remdups (map line_field errors)) = ?reduced"
    by (simp add: remove_lines_nths)
  have log: "fst (shexc_to_shexj P text) = [text, ?reduced]"
    using assms by (simp add: shexc_to_shexj_def Let_def red)
  have lines: "fst (shexc_to_shexj P text) =
      [text, join [CHR 0x0A] (nths ls {i. int (Suc i) \<notin> line_field ` set errors})]"
    if "text = join [CHR 0x0A] ls \<and> (\<forall>l \<in> set ls. \<forall>c \<in> set l. \<not> is_linebreak c) \<and>
          (ls \<noteq> [] \<longrightarrow> last ls \<noteq> [])"
  proof -
    have "splitlines text = ls"
      using that splitlines_join [of ls] by blast
    then show ?thesis
      using log by simp
  qed
  have ok: "\<exists>base namespaces comments.
      snd (shexc_to_shexj P text) = Inr (as_json P schema, base, namespaces, comments)"
    if s: "fst (ShExEvaluator P ?reduced) = Some schema" for schema
  proof -
    obtain cs where "load_metadata P (as_json P schema) ?reduced =
       Inr (as_json P schema, base_uri_parser_helper ?reduced,
            Some (namespaces_parser_helper (extract_prefix_declarations P) (StrInput ?reduced)),
            Some cs)"
      using load_metadata_total by blast
    then show ?thesis
      using assms s by (simp add: shexc_to_shexj_def Let_def red)
  qed
  have fail: "snd (shexc_to_shexj P text) = Inr ('''', None, None, None)"
    if "fst (ShExEvaluator P ?reduced) = None"
    using assms that by (simp add: shexc_to_shexj_def Let_def red unable_to_parse_def)
  show ?thesis
    using log lines ok fail by blast
qed

text \<open>
  The engine that rejects lines 2 and 3 of a text of four lines, and the engine that
  rejects everything.
\<close>

theorem retry_once_after_line_errors_witness:
  "ShExEvaluator two_lines_engine twice_broken_text =
     (None, [\<lparr>message_field = ''unexpected token'', line_field = 3\<rparr>,
             \<lparr>message_field = ''syntax error'', line_field = 2\<rparr>,
             \<lparr>message_field = ''syntax error'', line_field = 3\<rparr>]) \<and>
   twice_broken_text =
     join [CHR 0x0A] [''<S> {'', ''  ex:p @@@ ;'', ''  ex:q ### ;'', ''}''] \<and>
   fst (shexc_to_shexj two_lines_engine twice_broken_text) =
     [twice_broken_text, join [CHR 0x0A] [''<S> {'', ''}'']] \<and>
   snd (shexc_to_shexj two_lines_engine twice_broken_text) =
     Inr (''{}'', None, Some [], Some []) \<and>
   ShExEvaluator rejecting_engine ''junk'' =
     (None, [\<lparr>message_field = ''syntax error'', line_field = 1\<rparr>]) \<and>
   fst (shexc_to_shexj rejecting_engine ''junk'') = [''junk'', []] \<and>
   snd (shexc_to_shexj rejecting_engine ''junk'') = Inr ([], None, None, None)"
proof -
  let ?errors = "[\<lparr>message_field = ''unexpected token'', line_field = 3\<rparr>,
                  \<lparr>message_field = ''syntax error'', line_field = 2\<rparr>,
                  \<lparr>message_field = ''syntax error'', line_field = 3\<rparr>]"
  let ?ls = "[''<S> {'', ''  ex:p @@@ ;'', ''  ex:q ### ;'', ''}'']"
  have e: "ShExEvaluator two_lines_engine twice_broken_text = (None, ?errors)"
    by (simp add: two_lines_engine_def)
  have ne: "?errors \<noteq> []"
    by simp
  have t: "twice_broken_text = join [CHR 0x0A] ?ls"
    by (simp add: twice_broken_text_def)
  have plain: "\<forall>l \<in> set ?ls. \<forall>c \<in> set l. \<not> is_linebreak c"
    by (simp add: is_linebreak_def)
  have kept: "nths ?ls {i. int (Suc i) \<notin> line_field ` set ?errors} = [''<S> {'', ''}'']"
    by (simp add: nths_Cons)
  have hyp: "twice_broken_text = join [CHR 0x0A] ?ls \<and>
      (\<forall>l \<in> set ?ls. \<forall>c \<in> set l. \<not> is_linebreak c) \<and> (?ls \<noteq> [] \<longrightarrow> last ?ls \<noteq> [])"
    using t plain by simp
  have "fst (shexc_to_shexj two_lines_engine twice_broken_text) =
      [twice_broken_text,
       join [CHR 0x0A] (nths ?ls {i. int (Suc i) \<notin> line_field ` set ?errors})]"
    using retry_once_after_line_errors [OF e ne, of ?ls] hyp by blast
  then have log: "fst (shexc_to_shexj two_lines_engine twice_broken_text) =
      [twice_broken_text, join [CHR 0x0A] [''<S> {'', ''}'']]"
    by (simp only: kept)
  have ok: "snd (shexc_to_shexj two_lines_engine twice_broken_text) =
      Inr (''{}'', None, Some [], Some [])"
    by code_simp
  have e': "ShExEvaluator rejecting_engine ''junk'' =
      (None, [\<lparr>message_field = ''syntax error'', line_field = 1\<rparr>])"
    by (simp add: rejecting_engine_def)
  have ne': "[\<lparr>message_field = ''syntax error'', line_field = 1\<rparr>] \<noteq> []"
    by simp
  have again: "fst (ShExEvaluator rejecting_engine
      (join [CHR 0x0A] (nths (splitlines ''junk'') {i. int (Suc i) \<notin>
        line_field ` set [\<lparr>message_field = ''syntax error'', line_field = 1\<rparr>]}))) = None"
    by (simp add: rejecting_engine_def)
  have kept': "nths [''junk''] {i. int (Suc i) \<notin>
      line_field ` set [\<lparr>message_field = ''syntax error'', line_field = 1\<rparr>]} = []"
    by (simp add: nths_Cons)
  have plain': "\<forall>l \<in> set [''junk'']. \<forall>c \<in> set l. \<not> is_linebreak c"
    by (simp add: is_linebreak_def)
  have hyp': "''junk'' = join [CHR 0x0A] [''junk''] \<and>
      (\<forall>l \<in> set [''junk'']. \<forall>c \<in> set l. \<not> is_linebreak c) \<and>
      ([''junk''] \<noteq> [] \<longrightarrow> last [''junk''] \<noteq> [])"
    using plain' by simp
  have "fst (shexc_to_shexj rejecting_engine ''junk'') =
      [''junk'', join [CHR 0x0A] (nths [''junk''] {i. int (Suc i) \<notin>
        line_field ` set [\<lparr>message_field = ''syntax error'', line_field = 1\<rparr>]})]"
    using retry_once_after_line_errors [OF e' ne', of "[''junk'']"] hyp' by blast
  then have log': "fst (shexc_to_shexj rejecting_engine ''junk'') = [''junk'', []]"
    by (simp only: kept' join.simps)
  have fail: "snd (shexc_to_shexj rejecting_engine ''junk'') = Inr ([], None, None, None)"
    by (rule mp [OF conjunct2 [OF conjunct2 [OF conjunct2
        [OF retry_once_after_line_errors [OF e' ne', of "[''junk'']"]]]] again])
  show ?thesis
    using e t log ok e' log' fail by simp
qed

text \<open>
  When the retry fails too, the conversion returns a value, the empty result; it raises
  no error.
\<close>

theorem retry_failure_returns_counterexample:
  "ShExEvaluator rejecting_engine ''junk'' =
     (None, [\<lparr>message_field = ''syntax error'', line_field = 1\<rparr>]) \<and>
   fst (shexc_to_shexj rejecting_engine ''junk'') = [''junk'', []] \<and>
   snd (shexc_to_shexj rejecting_engine ''junk'') = Inr ([], None, None, None) \<and>
   \<not> isl (snd (shexc_to_shexj rejecting_engine ''junk''))"
  by code_simp

section \<open>The distances the evaluator records\<close>

lemma evaluate_class_Some:
  assumes "evaluate_class E dataset ground_truth_dir predicted_dir (class_url, class_label) =
      Inr (Some (ted, normalized))"
  shows "\<exists>true_text pred_text true_tree pred_tree.
      files E (true_shex_path ground_truth_dir class_url) = Some true_text \<and>
      files E (pred_shex_path predicted_dir class_url) = Some pred_text \<and>
      load_schema_tree E true_text (class_shape_id E dataset class_label) = Inr true_tree \<and>
      load_schema_tree E pred_text (class_shape_id E dataset class_label) = Inr pred_tree \<and>
      ted = of_nat (compute_tree_edit_distance true_tree pred_tree) \<and>
      normalized = normalized_ted (compute_tree_edit_distance true_tree pred_tree) true_tree"
  using assms
  unfolding evaluate_class_def true_shex_path_def pred_shex_path_def class_shape_id_def Let_def
  by (auto split: option.splits sum.splits)

lemma one_constraint_compute_distance:
  assumes "c1 \<noteq> c2"
  shows "compute_tree_edit_distance (one_constraint_tree r p n c1) (one_constraint_tree r p n c2) = 1"
proof -
  have "compute_tree_edit_distance (one_constraint_tree r p n c1) (one_constraint_tree r p n c2) =
      simple_distance (one_constraint_tree r p n c1) (one_constraint_tree r p n c2)"
    by (simp add: compute_tree_edit_distance_def canonical_pair_def Let_def
        sort_children_one_constraint_tree)
  then show ?thesis
    using one_constraint_distance_le [of r p n c1 c2] one_constraint_distance_ge [OF assms, of r p n]
    by simp
qed

lemma evaluate_loop_results:
  assumes "evaluate_loop E dataset ground_truth_dir predicted_dir classes acc = Inr res"
  shows "\<exists>results.
      map (evaluate_class E dataset ground_truth_dir predicted_dir) classes = map Inr results \<and>
      res = (fst acc @ map fst (compared results), snd acc @ map snd (compared results))"
  using assms
proof (induction classes arbitrary: acc)
  case Nil
  then show ?case
    by (auto simp: compared_def)
next
  case (Cons c cs)
  show ?case
  proof (cases "evaluate_class E dataset ground_truth_dir predicted_dir c")
    case (Inl e)
    with Cons.prems show ?thesis by simp
  next
    case (Inr r)
    show ?thesis
    proof (cases r)
      case None
      with Inr Cons.prems
      have "evaluate_loop E dataset ground_truth_dir predicted_dir cs acc = Inr res"
        by simp
      from Cons.IH [OF this] obtain results where
        m: "map (evaluate_class E dataset ground_truth_dir predicted_dir) cs = map Inr results"
        and r: "res = (fst acc @ map fst (compared results), snd acc @ map snd (compared results))"
        by blast
      have "map (evaluate_class E dataset ground_truth_dir predicted_dir) (c # cs) =
          map Inr (None # results)"
        using Inr None m by simp
      moreover have "res = (fst acc @ map fst (compared (None # results)),
          snd acc @ map snd (compared (None # results)))"
        using r by (simp add: compared_def)
      ultimately show ?thesis by blast
    next
      case (Some tn)
      obtain t n where tn: "tn = (t, n)"
        by (cases tn) auto
      with Inr Some Cons.prems
      have "evaluate_loop E dataset ground_truth_dir predicted_dir cs
          (fst acc @ [t], snd acc @ [n]) = Inr res"
        by simp
      from Cons.IH [OF this] obtain results where
        m: "map (evaluate_class E dataset ground_truth_dir predicted_dir) cs = map Inr results"
        and r: "res = (fst (fst acc @ [t], snd acc @ [n]) @ map fst (compared results),
                       snd (fst acc @ [t], snd acc @ [n]) @ map snd (compared results))"
        by blast
      have "map (evaluate_class E dataset ground_truth_dir predicted_dir) (c # cs) =
          map Inr (Some (t, n) # results)"
        using Inr Some tn m by simp
      moreover have "res = (fst acc @ map fst (compared (Some (t, n) # results)),
          snd acc @ map snd (compared (Some (t, n) # results)))"
        using r by (simp add: compared_def)
      ultimately show ?thesis by blast
    qed
  qed
qed

text \<open>
  C3, as amended. For every class the evaluator compares, the distance it records is the
  tree edit distance between the ground-truth tree and the predicted tree, and the
  normalized distance it records is that distance divided by 3 times
  \<open>len(true_schema_tree)\<close>, the number of children of the root of the ground-truth tree
  (when it has children). In particular, when both trees are built from one triple
  constraint and agree except for the cardinality leaf, the recorded distance is 1 and the
  recorded normalized distance is 1/3. The two lists the loop returns hold exactly these
  values of the compared classes, in order, and for a batch of that one class the
  evaluator returns that distance as the mean.
\<close>

theorem evaluator_normalized_distance:
  "(evaluate_class E dataset ground_truth_dir predicted_dir (class_url, class_label) =
      Inr (Some (ted, normalized)) \<longrightarrow>
      (\<exists>true_text pred_text true_tree pred_tree.
         files E (true_shex_path ground_truth_dir class_url) = Some true_text \<and>
         files E (pred_shex_path predicted_dir class_url) = Some pred_text \<and>
         load_schema_tree E true_text (class_shape_id E dataset class_label) = Inr true_tree \<and>
         load_schema_tree E pred_text (class_shape_id E dataset class_label) = Inr pred_tree \<and>
         ted = of_nat (compute_tree_edit_distance true_tree pred_tree) \<and>
         (children true_tree \<noteq> [] \<longrightarrow>
            normalized = Finite (ted / (3 * of_nat (length (children true_tree))))) \<and>
         (\<forall>r p n c1 c2.
            true_tree = one_constraint_tree r p n c1 \<and>
            pred_tree = one_constraint_tree r p n c2 \<and> c1 \<noteq> c2 \<longrightarrow>
              ted = 1 \<and> normalized = Finite (1 / 3))) \<and>
      evaluate_ted E dataset [class_url] [class_label] ground_truth_dir predicted_dir =
        Inr ted) \<and>
   (evaluate_loop E dataset ground_truth_dir predicted_dir (zip class_urls class_labels)
      ([], []) = Inr (teds, normalized_teds) \<longrightarrow>
      (\<exists>results.
         map (evaluate_class E dataset ground_truth_dir predicted_dir)
           (zip class_urls class_labels) = map Inr results \<and>
         teds = map fst (compared results) \<and>
         normalized_teds = map snd (compared results)))"
proof (intro conjI impI)
  assume a: "evaluate_class E dataset ground_truth_dir predicted_dir (class_url, class_label) =
      Inr (Some (ted, normalized))"
  from evaluate_class_Some [OF a] obtain true_text pred_text true_tree pred_tree where
    f1: "files E (true_shex_path ground_truth_dir class_url) = Some true_text"
    and f2: "files E (pred_shex_path predicted_dir class_url) = Some pred_text"
    and l1: "load_schema_tree E true_text (class_shape_id E dataset class_label) = Inr true_tree"
    and l2: "load_schema_tree E pred_text (class_shape_id E dataset class_label) = Inr pred_tree"
    and t: "ted = of_nat (compute_tree_edit_distance true_tree pred_tree)"
    and n: "normalized = normalized_ted (compute_tree_edit_distance true_tree pred_tree) true_tree"
    by blast
  have g: "children true_tree \<noteq> [] \<longrightarrow>
      normalized = Finite (ted / (3 * of_nat (length (children true_tree))))"
    unfolding n t by (simp add: normalized_ted_def len_ShapeNode_def)
  have s: "\<forall>r p n c1 c2.
      true_tree = one_constraint_tree r p n c1 \<and>
      pred_tree = one_constraint_tree r p n c2 \<and> c1 \<noteq> c2 \<longrightarrow>
        ted = 1 \<and> normalized = Finite (1 / 3)"
  proof (intro allI impI)
    fix r p k c1 c2
    assume h: "true_tree = one_constraint_tree r p k c1 \<and>
      pred_tree = one_constraint_tree r p k c2 \<and> c1 \<noteq> c2"
    then have d: "compute_tree_edit_distance true_tree pred_tree = 1"
      using one_constraint_compute_distance [of c1 c2 r p k] by simp
    have "normalized_ted 1 (one_constraint_tree r p k c1) = Finite (1 / 3)"
      by (simp add: normalized_ted_def len_ShapeNode_def one_constraint_tree_def)
    then show "ted = 1 \<and> normalized = Finite (1 / 3)"
      unfolding n t d using h by simp
  qed
  show "\<exists>true_text pred_text true_tree pred_tree.
         files E (true_shex_path ground_truth_dir class_url) = Some true_text \<and>
         files E (pred_shex_path predicted_dir class_url) = Some pred_text \<and>
         load_schema_tree E true_text (class_shape_id E dataset class_label) = Inr true_tree \<and>
         load_schema_tree E pred_text (class_shape_id E dataset class_label) = Inr pred_tree \<and>
         ted = of_nat (compute_tree_edit_distance true_tree pred_tree) \<and>
         (children true_tree \<noteq> [] \<longrightarrow>
            normalized = Finite (ted / (3 * of_nat (length (children true_tree))))) \<and>
         (\<forall>r p n c1 c2.
            true_tree = one_constraint_tree r p n c1 \<and>
            pred_tree = one_constraint_tree r p n c2 \<and> c1 \<noteq> c2 \<longrightarrow>
              ted = 1 \<and> normalized = Finite (1 / 3))"
    using f1 f2 l1 l2 t g s by blast
  show "evaluate_ted E dataset [class_url] [class_label] ground_truth_dir predicted_dir =
      Inr ted"
    by (simp add: evaluate_ted_def a average_ted_def)
next
  assume "evaluate_loop E dataset ground_truth_dir predicted_dir (zip class_urls class_labels)
      ([], []) = Inr (teds, normalized_teds)"
  from evaluate_loop_results [OF this]
  show "\<exists>results.
         map (evaluate_class E dataset ground_truth_dir predicted_dir)
           (zip class_urls class_labels) = map Inr results \<and>
         teds = map fst (compared results) \<and>
         normalized_teds = map snd (compared results)"
    by simp
qed

text \<open>
  The two classes of the scenario environment: \<open>Q5\<close>, whose trees differ in the
  cardinality leaf only, and \<open>Q42\<close>, whose predicted tree has no constraint while the
  ground-truth tree has one.
\<close>

theorem evaluator_normalized_distance_witness:
  "evaluate_class scenario_eval_env ''wes'' ''truth'' ''predicted''
     (''http://www.wikidata.org/entity/Q5'', ''Person'') = Inr (Some (1, Finite (1 / 3))) \<and>
   evaluate_class scenario_eval_env ''wes'' ''truth'' ''predicted''
     (''http://www.wikidata.org/entity/Q42'', ''Person'') = Inr (Some (3, Finite 1)) \<and>
   evaluate_loop scenario_eval_env ''wes'' ''truth'' ''predicted''
     (zip [''http://www.wikidata.org/entity/Q5'', ''http://www.wikidata.org/entity/Q42'']
        [''Person'', ''Person'']) ([], []) = Inr ([1, 3], [Finite (1 / 3), Finite 1]) \<and>
   evaluate_ted scenario_eval_env ''wes'' [''http://www.wikidata.org/entity/Q5''] [''Person'']
     ''truth'' ''predicted'' = Inr 1 \<and>
   evaluate_ted scenario_eval_env ''wes'' [''http://www.wikidata.org/entity/Q42''] [''Person'']
     ''truth'' ''predicted'' = Inr 3"
proof -
  have c1: "evaluate_class scenario_eval_env ''wes'' ''truth'' ''predicted''
     (''http://www.wikidata.org/entity/Q5'', ''Person'') = Inr (Some (1, Finite (1 / 3)))"
    by code_simp
  have c2: "evaluate_class scenario_eval_env ''wes'' ''truth'' ''predicted''
     (''http://www.wikidata.org/entity/Q42'', ''Person'') = Inr (Some (3, Finite 1))"
    by code_simp
  have l: "evaluate_loop scenario_eval_env ''wes'' ''truth'' ''predicted''
     (zip [''http://www.wikidata.org/entity/Q5'', ''http://www.wikidata.org/entity/Q42'']
        [''Person'', ''Person'']) ([], []) = Inr ([1, 3], [Finite (1 / 3), Finite 1])"
    by code_simp
  have m1: "evaluate_ted scenario_eval_env ''wes'' [''http://www.wikidata.org/entity/Q5'']
      [''Person''] ''truth'' ''predicted'' = Inr 1"
    by (rule conjunct2 [OF mp [OF conjunct1 [OF evaluator_normalized_distance] c1]])
  have m2: "evaluate_ted scenario_eval_env ''wes'' [''http://www.wikidata.org/entity/Q42'']
      [''Person''] ''truth'' ''predicted'' = Inr 3"
    by (rule conjunct2 [OF mp [OF conjunct1 [OF evaluator_normalized_distance] c2]])
  show ?thesis
    using c1 c2 l m1 m2 by (simp only: simp_thms)
qed

text \<open>
  Both trees are built by the tree builder from one triple constraint; the distance is 1,
  the root of the ground-truth tree has one child, and the normalized distance the
  evaluator records is 1/3, not 1/9.
\<close>

theorem normalized_one_ninth_counterexample:
  "transform_schema_to_tree example_label_fns
     (person_schema [(Some ''knows'', ''IRI'', ''*'')]) ''Person'' =
     Inr (one_constraint_tree ''Person'' ''knows'' ''IRI'' ''*'') \<and>
   transform_schema_to_tree example_label_fns
     (person_schema [(Some ''knows'', ''IRI'', ''{1,1}'')]) ''Person'' =
     Inr (one_constraint_tree ''Person'' ''knows'' ''IRI'' ''{1,1}'') \<and>
   compute_tree_edit_distance (one_constraint_tree ''Person'' ''knows'' ''IRI'' ''*'')
     (one_constraint_tree ''Person'' ''knows'' ''IRI'' ''{1,1}'') = 1 \<and>
   normalized_ted
     (compute_tree_edit_distance (one_constraint_tree ''Person'' ''knows'' ''IRI'' ''*'')
        (one_constraint_tree ''Person'' ''knows'' ''IRI'' ''{1,1}''))
     (one_constraint_tree ''Person'' ''knows'' ''IRI'' ''*'') = Finite (1 / 3) \<and>
   normalized_ted
     (compute_tree_edit_distance (one_constraint_tree ''Person'' ''knows'' ''IRI'' ''*'')
        (one_constraint_tree ''Person'' ''knows'' ''IRI'' ''{1,1}''))
     (one_constraint_tree ''Person'' ''knows'' ''IRI'' ''*'') \<noteq> Finite (1 / 9) \<and>
   evaluate_class scenario_eval_env ''wes'' ''truth'' ''predicted''
     (''http://www.wikidata.org/entity/Q5'', ''Person'') = Inr (Some (1, Finite (1 / 3))) \<and>
   evaluate_class scenario_eval_env ''wes'' ''truth'' ''predicted''
     (''http://www.wikidata.org/entity/Q5'', ''Person'') \<noteq> Inr (Some (1, Finite (1 / 9)))"
proof -
  have t1: "transform_schema_to_tree example_label_fns
     (person_schema [(Some ''knows'', ''IRI'', ''*'')]) ''Person'' =
     Inr (one_constraint_tree ''Person'' ''knows'' ''IRI'' ''*'')"
    by (simp add: transform_schema_to_tree_def resolve_start_shape_def get_shapes_dict_def
        person_schema_def example_label_fns_def tree_add_constraint_def add_kid_def
        one_constraint_tree_def)
  have t2: "transform_schema_to_tree example_label_fns
     (person_schema [(Some ''knows'', ''IRI'', ''{1,1}'')]) ''Person'' =
     Inr (one_constraint_tree ''Person'' ''knows'' ''IRI'' ''{1,1}'')"
    by (simp add: transform_schema_to_tree_def resolve_start_shape_def get_shapes_dict_def
        person_schema_def example_label_fns_def tree_add_constraint_def add_kid_def
        one_constraint_tree_def)
  have d: "compute_tree_edit_distance (one_constraint_tree ''Person'' ''knows'' ''IRI'' ''*'')
     (one_constraint_tree ''Person'' ''knows'' ''IRI'' ''{1,1}'') = 1"
    by (rule one_constraint_compute_distance) simp
  have n: "normalized_ted 1 (one_constraint_tree ''Person'' ''knows'' ''IRI'' ''*'') =
      Finite (1 / 3)"
    by (simp add: normalized_ted_def len_ShapeNode_def one_constraint_tree_def)
  have c: "evaluate_class scenario_eval_env ''wes'' ''truth'' ''predicted''
     (''http://www.wikidata.org/entity/Q5'', ''Person'') = Inr (Some (1, Finite (1 / 3)))"
    by code_simp
  show ?thesis
    unfolding d n c using t1 t2 by simp
qed

end
